theory Spec2Isabelle
  imports Main "HOL-Library.AList" "HOL-Library.Sublist" "HOL-Library.Multiset"
begin

section \<open>Python values\<close>

text \<open>
  The module \<^verbatim>\<open>page_loader/loading_handler/html_parser.py\<close> is embedded together with
  the library functions it calls (\<^verbatim>\<open>urllib.parse\<close>, \<^verbatim>\<open>os.path.join\<close>), which are
  translated from CPython 3.11.

  A Python \<^verbatim>\<open>str\<close> is a \<^typ>\<open>string\<close>: a list of 8-bit characters, each standing for
  the code point of the same number (the code points below 256). An exception is a value
  of \<open>py_error\<close>, and a function that may raise returns \<open>py_error + 'a\<close>.
\<close>

datatype py_error = KeyError string | ValueError | RequestException | OSError

subsection \<open>String methods\<close>

text \<open>\<^verbatim>\<open>_WHATWG_C0_CONTROL_OR_SPACE\<close>: the code points 0 to 0x20.\<close>

definition is_c0_or_space :: "char \<Rightarrow> bool" where
  "is_c0_or_space c = (of_char c \<le> (32::nat))"

text \<open>\<^verbatim>\<open>s.lstrip(chars)\<close> and \<^verbatim>\<open>s.strip(chars)\<close> for that set of characters.\<close>

definition lstrip_c0 :: "string \<Rightarrow> string" where
  "lstrip_c0 s = dropWhile is_c0_or_space s"

definition strip_c0 :: "string \<Rightarrow> string" where
  "strip_c0 s = rev (dropWhile is_c0_or_space (rev (dropWhile is_c0_or_space s)))"

text \<open>\<^verbatim>\<open>_UNSAFE_URL_BYTES_TO_REMOVE = ['\t', '\r', '\n']\<close>, each removed by \<^verbatim>\<open>replace(b, "")\<close>.\<close>

definition unsafe_url_bytes :: string where
  "unsafe_url_bytes = [CHR 0x09, CHR 0x0D, CHR 0x0A]"

definition remove_unsafe :: "string \<Rightarrow> string" where
  "remove_unsafe s = fold (\<lambda>b u. filter (\<lambda>c. c \<noteq> b) u) unsafe_url_bytes s"

text \<open>\<^verbatim>\<open>s.find(c)\<close>, \<^verbatim>\<open>s.find(c, start)\<close> and \<^verbatim>\<open>s.rfind(c)\<close>; \<open>None\<close> is Python's -1.\<close>

definition find_from :: "char \<Rightarrow> nat \<Rightarrow> string \<Rightarrow> nat option" where
  "find_from c start s =
     (if c \<in> set (drop start s)
      then Some (start + length (takeWhile (\<lambda>x. x \<noteq> c) (drop start s)))
      else None)"

definition find_char :: "char \<Rightarrow> string \<Rightarrow> nat option" where
  "find_char c s = find_from c 0 s"

definition rfind_char :: "char \<Rightarrow> string \<Rightarrow> nat option" where
  "rfind_char c s =
     (if c \<in> set s
      then Some (length s - Suc (length (takeWhile (\<lambda>x. x \<noteq> c) (rev s))))
      else None)"

text \<open>\<^verbatim>\<open>s.split(c, 1)\<close> for a string that contains \<open>c\<close>: the text before the first
  \<open>c\<close> and the text after it.\<close>

definition split_first :: "char \<Rightarrow> string \<Rightarrow> string \<times> string" where
  "split_first c s = (takeWhile (\<lambda>x. x \<noteq> c) s, tl (dropWhile (\<lambda>x. x \<noteq> c) s))"

text \<open>\<^verbatim>\<open>s.split(c)\<close>: the pieces between the occurrences of \<open>c\<close>, never an empty list.\<close>

fun split_on :: "char \<Rightarrow> string \<Rightarrow> string list" where
  "split_on c [] = [[]]"
| "split_on c (x # xs) =
     (if x = c then [] # split_on c xs
      else (case split_on c xs of
              [] \<Rightarrow> [[x]]
            | y # ys \<Rightarrow> (x # y) # ys))"

text \<open>\<^verbatim>\<open>sep.join(parts)\<close>.\<close>

fun join_with :: "string \<Rightarrow> string list \<Rightarrow> string" where
  "join_with sep [] = []"
| "join_with sep [x] = x"
| "join_with sep (x # y # ys) = x @ sep @ join_with sep (y # ys)"

text \<open>\<^verbatim>\<open>s.lower()\<close> on the code points below 256: the letters A to Z and the accented
  capitals 0xC0 to 0xDE (without the multiplication sign 0xD7) move up by 32.\<close>

definition upper_letters :: string where
  "upper_letters = ''ABCDEFGHIJKLMNOPQRSTUVWXYZ'' @
     [CHR 0xC0, CHR 0xC1, CHR 0xC2, CHR 0xC3, CHR 0xC4, CHR 0xC5, CHR 0xC6, CHR 0xC7,
      CHR 0xC8, CHR 0xC9, CHR 0xCA, CHR 0xCB, CHR 0xCC, CHR 0xCD, CHR 0xCE, CHR 0xCF,
      CHR 0xD0, CHR 0xD1, CHR 0xD2, CHR 0xD3, CHR 0xD4, CHR 0xD5, CHR 0xD6,
      CHR 0xD8, CHR 0xD9, CHR 0xDA, CHR 0xDB, CHR 0xDC, CHR 0xDD, CHR 0xDE]"

definition lower_letters :: string where
  "lower_letters = ''abcdefghijklmnopqrstuvwxyz'' @
     [CHR 0xE0, CHR 0xE1, CHR 0xE2, CHR 0xE3, CHR 0xE4, CHR 0xE5, CHR 0xE6, CHR 0xE7,
      CHR 0xE8, CHR 0xE9, CHR 0xEA, CHR 0xEB, CHR 0xEC, CHR 0xED, CHR 0xEE, CHR 0xEF,
      CHR 0xF0, CHR 0xF1, CHR 0xF2, CHR 0xF3, CHR 0xF4, CHR 0xF5, CHR 0xF6,
      CHR 0xF8, CHR 0xF9, CHR 0xFA, CHR 0xFB, CHR 0xFC, CHR 0xFD, CHR 0xFE]"

definition lower_char :: "char \<Rightarrow> char" where
  "lower_char c =
     (case map_of (zip upper_letters lower_letters) c of Some d \<Rightarrow> d | None \<Rightarrow> c)"

definition lower :: "string \<Rightarrow> string" where
  "lower s = map lower_char s"

text \<open>\<^verbatim>\<open>c.isascii() and c.isalpha()\<close>: an ASCII letter.\<close>

definition ascii_letters :: string where
  "ascii_letters = ''abcdefghijklmnopqrstuvwxyzABCDEFGHIJKLMNOPQRSTUVWXYZ''"

definition isascii_isalpha :: "char \<Rightarrow> bool" where
  "isascii_isalpha c = (c \<in> set ascii_letters)"

section \<open>The environment of the module\<close>

text \<open>
  What the module uses and the sources do not hold is a parameter of the model:
  \<^item> \<open>ip_address\<close>: \<^verbatim>\<open>ipaddress.ip_address\<close>, which \<^verbatim>\<open>urlsplit\<close> asks about a bracketed
    host; \<open>None\<close> when it raises \<^verbatim>\<open>ValueError\<close>;
  \<^item> \<open>host_os\<close>: the host's path convention, which selects \<^verbatim>\<open>os.path\<close>;
  \<^item> \<open>parse_url\<close> and \<open>get_dir_name\<close>: the helpers imported from
    \<^verbatim>\<open>page_loader.loading_handler.file_system_guide\<close>. They may raise.
\<close>

datatype ip_version = IPv4Address | IPv6Address

datatype os_kind = Posix | Nt

record url_parts =
  netloc_part :: string
  path_part :: string
  ext_part :: string

record env =
  ip_address :: "string \<Rightarrow> ip_version option"
  host_os :: os_kind
  parse_url :: "string \<Rightarrow> py_error + url_parts"
  get_dir_name :: "string \<Rightarrow> py_error + string"

section \<open>urllib.parse\<close>

definition uses_relative :: "string list" where
  "uses_relative = ['''', ''ftp'', ''http'', ''gopher'', ''nntp'', ''imap'',
     ''wais'', ''file'', ''https'', ''shttp'', ''mms'',
     ''prospero'', ''rtsp'', ''rtsps'', ''rtspu'', ''sftp'',
     ''svn'', ''svn+ssh'', ''ws'', ''wss'']"

definition uses_netloc :: "string list" where
  "uses_netloc = ['''', ''ftp'', ''http'', ''gopher'', ''nntp'', ''telnet'',
     ''imap'', ''wais'', ''file'', ''mms'', ''https'', ''shttp'',
     ''snews'', ''prospero'', ''rtsp'', ''rtsps'', ''rtspu'', ''rsync'',
     ''svn'', ''svn+ssh'', ''sftp'', ''nfs'', ''git'', ''git+ssh'',
     ''ws'', ''wss'']"

definition uses_params :: "string list" where
  "uses_params = ['''', ''ftp'', ''hdl'', ''prospero'', ''http'', ''imap'',
     ''https'', ''shttp'', ''rtsp'', ''rtsps'', ''rtspu'', ''sip'',
     ''sips'', ''mms'', ''sftp'', ''tel'']"

definition scheme_chars :: string where
  "scheme_chars =
     ''abcdefghijklmnopqrstuvwxyzABCDEFGHIJKLMNOPQRSTUVWXYZ0123456789+-.''"

text \<open>\<^verbatim>\<open>_splitnetloc(url, start)\<close>: the earliest of the delimiters after \<open>start\<close> ends
  the network location.\<close>

definition splitnetloc :: "string \<Rightarrow> nat \<Rightarrow> string \<times> string" where
  "splitnetloc url start =
     (let delim = fold (\<lambda>c d. case find_from c start url of
                                 Some wdelim \<Rightarrow> min d wdelim
                               | None \<Rightarrow> d)
                       ''/?#'' (length url)
      in (take (delim - start) (drop start url), drop delim url))"

text \<open>\<^verbatim>\<open>_check_bracketed_host(hostname)\<close>; \<open>True\<close> when it returns, \<open>False\<close> when it
  raises \<^verbatim>\<open>ValueError\<close>. The regular expression for an IPvFuture address is
  \<^verbatim>\<open>\Av[a-fA-F0-9]+\..+\Z\<close>.\<close>

definition hex_digits :: string where
  "hex_digits = ''abcdefABCDEF0123456789''"

definition check_bracketed_host :: "(string \<Rightarrow> ip_version option) \<Rightarrow> string \<Rightarrow> bool" where
  "check_bracketed_host ip hostname =
     (if take 1 hostname = ''v''
      then (let digits = takeWhile (\<lambda>c. c \<in> set hex_digits) (tl hostname);
                rest = dropWhile (\<lambda>c. c \<in> set hex_digits) (tl hostname)
            in digits \<noteq> [] \<and> take 1 rest = ''.'' \<and> tl rest \<noteq> [] \<and>
               CHR 0x0A \<notin> set (tl rest))
      else (case ip hostname of
              None \<Rightarrow> False
            | Some IPv4Address \<Rightarrow> False
            | Some IPv6Address \<Rightarrow> True))"

text \<open>The scheme of \<^verbatim>\<open>urlsplit\<close>: the text before the first colon, when it starts with
  an ASCII letter and holds scheme characters only.\<close>

definition split_scheme :: "string \<Rightarrow> string \<Rightarrow> string \<times> string" where
  "split_scheme url scheme =
     (case find_char CHR '':'' url of
        None \<Rightarrow> (scheme, url)
      | Some i \<Rightarrow>
          if 0 < i \<and> isascii_isalpha (url ! 0) \<and> list_all (\<lambda>c. c \<in> set scheme_chars) (take i url)
          then (lower (take i url), drop (i + 1) url)
          else (scheme, url))"

text \<open>The network location of \<^verbatim>\<open>urlsplit\<close>, with its checks of the brackets.\<close>

definition split_netloc_checked ::
  "(string \<Rightarrow> ip_version option) \<Rightarrow> string \<Rightarrow> py_error + (string \<times> string)" where
  "split_netloc_checked ip url =
     (if take 2 url = ''//''
      then (let (netloc, rest) = splitnetloc url 2
            in if (CHR ''['' \<in> set netloc \<and> CHR '']'' \<notin> set netloc) \<or>
                  (CHR '']'' \<in> set netloc \<and> CHR ''['' \<notin> set netloc)
               then Inl ValueError
               else if CHR ''['' \<in> set netloc \<and> CHR '']'' \<in> set netloc \<and>
                       \<not> check_bracketed_host ip
                            (takeWhile (\<lambda>c. c \<noteq> CHR '']'')
                               (tl (dropWhile (\<lambda>c. c \<noteq> CHR ''['') netloc)))
               then Inl ValueError
               else Inr (netloc, rest))
      else Inr ([], url))"

text \<open>
  \<^verbatim>\<open>urlsplit(url, scheme)\<close>, with \<^verbatim>\<open>allow_fragments\<close> at its default \<^verbatim>\<open>True\<close>, as every
  call of the module leaves it. \<^verbatim>\<open>_checknetloc\<close> returns at once for an ASCII network
  location and raises only when NFKC normalisation brings one of \<^verbatim>\<open>/?#@:\<close> into it, which
  no code point below 256 does: on the strings of this model it never raises, and it
  returns nothing.
\<close>

definition urlsplit ::
  "(string \<Rightarrow> ip_version option) \<Rightarrow> string \<Rightarrow> string \<Rightarrow>
     py_error + (string \<times> string \<times> string \<times> string \<times> string)" where
  "urlsplit ip url0 scheme0 =
     (let url = remove_unsafe (lstrip_c0 url0);
          scheme = remove_unsafe (strip_c0 scheme0);
          (scheme, url) = split_scheme url scheme
      in case split_netloc_checked ip url of
           Inl e \<Rightarrow> Inl e
         | Inr (netloc, url) \<Rightarrow>
             (let (url, fragment) =
                    (if CHR ''#'' \<in> set url then split_first CHR ''#'' url else (url, []));
                  (url, query) =
                    (if CHR ''?'' \<in> set url then split_first CHR ''?'' url else (url, []))
              in Inr (scheme, netloc, url, query, fragment)))"

text \<open>\<^verbatim>\<open>_splitparams(url)\<close>.\<close>

definition splitparams :: "string \<Rightarrow> string \<times> string" where
  "splitparams url =
     (let found =
            (if CHR ''/'' \<in> set url
             then (case find_from CHR '';'' (the (rfind_char CHR ''/'' url)) url of
                     None \<Rightarrow> Inl (url, [])
                   | Some i \<Rightarrow> Inr (Some i))
             else Inr (find_char CHR '';'' url))
      in case found of
           Inl r \<Rightarrow> r
         | Inr (Some i) \<Rightarrow> (take i url, drop (i + 1) url)
         | Inr None \<Rightarrow> (butlast url, url))"

definition urlunsplit :: "string \<Rightarrow> string \<Rightarrow> string \<Rightarrow> string \<Rightarrow> string \<Rightarrow> string" where
  "urlunsplit scheme netloc url0 query fragment =
     (let url = (if netloc \<noteq> [] \<or> (scheme \<noteq> [] \<and> scheme \<in> set uses_netloc) \<or>
                    take 2 url0 = ''//''
                 then ''//'' @ netloc @
                      (if url0 \<noteq> [] \<and> take 1 url0 \<noteq> ''/'' then ''/'' @ url0 else url0)
                 else url0);
          url = (if scheme \<noteq> [] then scheme @ '':'' @ url else url);
          url = (if query \<noteq> [] then url @ ''?'' @ query else url);
          url = (if fragment \<noteq> [] then url @ ''#'' @ fragment else url)
      in url)"

record parse_result =
  scheme :: string
  netloc :: string
  path :: string
  params :: string
  query :: string
  fragment :: string

definition urlparse ::
  "(string \<Rightarrow> ip_version option) \<Rightarrow> string \<Rightarrow> string \<Rightarrow> py_error + parse_result" where
  "urlparse ip url0 scheme0 =
     (case urlsplit ip url0 scheme0 of
        Inl e \<Rightarrow> Inl e
      | Inr (s, n, url, q, f) \<Rightarrow>
          (let (url, p) =
                 (if s \<in> set uses_params \<and> CHR '';'' \<in> set url
                  then splitparams url else (url, []))
           in Inr \<lparr>scheme = s, netloc = n, path = url, params = p,
                    query = q, fragment = f\<rparr>))"

definition urlunparse :: "parse_result \<Rightarrow> string" where
  "urlunparse r =
     urlunsplit (scheme r) (netloc r)
       (if params r \<noteq> [] then path r @ '';'' @ params r else path r)
       (query r) (fragment r)"

text \<open>The path of \<^verbatim>\<open>urljoin\<close>: the segments of the base (without its last one, unless
  empty) and of the reference, the dot segments resolved.\<close>

definition filter_middle :: "string list \<Rightarrow> string list" where
  "filter_middle segments =
     (if 2 \<le> length segments
      then hd segments # filter (\<lambda>s. s \<noteq> []) (butlast (tl segments)) @ [last segments]
      else segments)"

definition resolve_step :: "string \<Rightarrow> string list \<Rightarrow> string list" where
  "resolve_step seg resolved_path =
     (if seg = ''..'' then butlast resolved_path
      else if seg = ''.'' then resolved_path
      else resolved_path @ [seg])"

definition resolve_path :: "string \<Rightarrow> string \<Rightarrow> string" where
  "resolve_path bpath path0 =
     (let base_parts = split_on CHR ''/'' bpath;
          base_parts = (if last base_parts \<noteq> [] then butlast base_parts else base_parts);
          segments = (if take 1 path0 = ''/'' then split_on CHR ''/'' path0
                      else filter_middle (base_parts @ split_on CHR ''/'' path0));
          resolved_path = fold resolve_step segments [];
          resolved_path = (if last segments \<in> {''.'', ''..''}
                           then resolved_path @ [[]] else resolved_path);
          joined = join_with ''/'' resolved_path
      in if joined = [] then ''/'' else joined)"

definition urljoin ::
  "(string \<Rightarrow> ip_version option) \<Rightarrow> string \<Rightarrow> string \<Rightarrow> py_error + string" where
  "urljoin ip base url =
     (if base = [] then Inr url
      else if url = [] then Inr base
      else case urlparse ip base [] of
        Inl e \<Rightarrow> Inl e
      | Inr b \<Rightarrow>
         (case urlparse ip url (scheme b) of
            Inl e \<Rightarrow> Inl e
          | Inr u \<Rightarrow>
              if scheme u \<noteq> scheme b \<or> scheme u \<notin> set uses_relative then Inr url
              else if scheme u \<in> set uses_netloc \<and> netloc u \<noteq> [] then Inr (urlunparse u)
              else (let netloc' = (if scheme u \<in> set uses_netloc then netloc b else netloc u)
                    in if path u = [] \<and> params u = []
                       then Inr (urlunparse (u\<lparr>netloc := netloc', path := path b,
                               params := params b,
                               query := (if query u = [] then query b else query u)\<rparr>))
                       else Inr (urlunparse (u\<lparr>netloc := netloc',
                               path := resolve_path (path b) (path u)\<rparr>)))))"

section \<open>The link classifier\<close>

text \<open>\<^verbatim>\<open>DOMAIN_ADDRESS = '{}://{}'\<close>, filled with a scheme and a network location.\<close>

definition DOMAIN_ADDRESS :: "string \<Rightarrow> string \<Rightarrow> string" where
  "DOMAIN_ADDRESS s n = s @ ''://'' @ n"

definition get_full_link :: "env \<Rightarrow> string \<Rightarrow> string \<Rightarrow> py_error + string" where
  "get_full_link E link page_url =
     (case urlparse (ip_address E) page_url [] of
        Inl e \<Rightarrow> Inl e
      | Inr page \<Rightarrow>
         (let url_domain_address = DOMAIN_ADDRESS (scheme page) (netloc page)
          in case urlparse (ip_address E) link [] of
               Inl e \<Rightarrow> Inl e
             | Inr rsc \<Rightarrow>
                 if netloc rsc = [] then urljoin (ip_address E) url_domain_address link
                 else Inr link))"

definition is_local_link :: "env \<Rightarrow> string \<Rightarrow> string \<Rightarrow> py_error + bool" where
  "is_local_link E link page_url =
     (case urlparse (ip_address E) link [] of
        Inl e \<Rightarrow> Inl e
      | Inr rsc \<Rightarrow>
         (case urlparse (ip_address E) page_url [] of
            Inl e \<Rightarrow> Inl e
          | Inr page \<Rightarrow> Inr (netloc rsc = netloc page)))"

section \<open>os.path.join\<close>

text \<open>\<^verbatim>\<open>posixpath.join(a, b)\<close>.\<close>

definition posixpath_join :: "string \<Rightarrow> string \<Rightarrow> string" where
  "posixpath_join a b =
     (if take 1 b = ''/'' then b
      else if a = [] \<or> last a = CHR ''/'' then a @ b
      else a @ ''/'' @ b)"

text \<open>\<^verbatim>\<open>ntpath.splitdrive(p)\<close> and \<^verbatim>\<open>ntpath.join(path, p)\<close>. The backslash is the
  character 0x5C. \<^verbatim>\<open>normp[:8].upper()\<close> is compared with \<^verbatim>\<open>unc_prefix\<close> only: the three
  code points below 256 whose upper case is no code point below 256 (0xB5, 0xDF, 0xFF)
  are left as they are by \<open>upper_char\<close>, and neither they nor their upper case occur in
  \<^verbatim>\<open>unc_prefix\<close>.\<close>

definition nt_sep :: char where
  "nt_sep = CHR 0x5C"

definition nt_seps :: string where
  "nt_seps = [CHR 0x5C, CHR ''/'']"

definition unc_prefix :: string where
  "unc_prefix = [CHR 0x5C, CHR 0x5C, CHR ''?'', CHR 0x5C, CHR ''U'', CHR ''N'', CHR ''C'', CHR 0x5C]"

definition upper_char :: "char \<Rightarrow> char" where
  "upper_char c =
     (case map_of (zip lower_letters upper_letters) c of Some d \<Rightarrow> d | None \<Rightarrow> c)"

definition nt_splitdrive :: "string \<Rightarrow> string \<times> string" where
  "nt_splitdrive p =
     (if 2 \<le> length p
      then (let normp = map (\<lambda>c. if c = CHR ''/'' then nt_sep else c) p
            in if take 2 normp = [nt_sep, nt_sep]
               then (let start = (if map upper_char (take 8 normp) = unc_prefix then 8 else 2)
                     in case find_from nt_sep start normp of
                          None \<Rightarrow> (p, [])
                        | Some index \<Rightarrow>
                            (case find_from nt_sep (index + 1) normp of
                               None \<Rightarrow> (p, [])
                             | Some index2 \<Rightarrow> (take index2 p, drop index2 p)))
               else if take 1 (drop 1 normp) = '':'' then (take 2 p, drop 2 p)
               else ([], p))
      else ([], p))"

definition ntpath_join :: "string \<Rightarrow> string \<Rightarrow> string" where
  "ntpath_join path0 p =
     (let (result_drive, result_path) = nt_splitdrive path0;
          (p_drive, p_path) = nt_splitdrive p;
          (result_drive, result_path) =
            (if p_path \<noteq> [] \<and> hd p_path \<in> set nt_seps
             then (if p_drive \<noteq> [] \<or> result_drive = [] then p_drive else result_drive, p_path)
             else if p_drive \<noteq> [] \<and> p_drive \<noteq> result_drive \<and>
                     lower p_drive \<noteq> lower result_drive
             then (p_drive, p_path)
             else (if p_drive \<noteq> [] \<and> p_drive \<noteq> result_drive then p_drive else result_drive,
                   (if result_path \<noteq> [] \<and> last result_path \<notin> set nt_seps
                    then result_path @ [nt_sep] else result_path) @ p_path))
      in if result_path \<noteq> [] \<and> hd result_path \<notin> set nt_seps \<and>
            result_drive \<noteq> [] \<and> last result_drive \<noteq> CHR '':''
         then result_drive @ [nt_sep] @ result_path
         else result_drive @ result_path)"

text \<open>\<^verbatim>\<open>os.path\<close> is \<^verbatim>\<open>posixpath\<close> or \<^verbatim>\<open>ntpath\<close>, by the host.\<close>

definition os_path_join :: "os_kind \<Rightarrow> string \<Rightarrow> string \<Rightarrow> string" where
  "os_path_join os a b = (case os of Posix \<Rightarrow> posixpath_join a b | Nt \<Rightarrow> ntpath_join a b)"

section \<open>The resource namer\<close>

text \<open>Modelled from the spec: \<^verbatim>\<open>HTML_EXT\<close> is a constant of
  \<^verbatim>\<open>file_system_guide.py\<close>, which is not among the sources; the spec names the default
  extension \<^verbatim>\<open>html\<close>.\<close>

definition HTML_EXT :: string where
  "HTML_EXT = ''html''"

definition create_resource_name :: "env \<Rightarrow> string \<Rightarrow> py_error + string" where
  "create_resource_name E link =
     (case parse_url E link of
        Inl e \<Rightarrow> Inl e
      | Inr parsed_resource_link \<Rightarrow>
          (let n = netloc_part parsed_resource_link;
               p = path_part parsed_resource_link;
               ext = ext_part parsed_resource_link;
               ext = (if ext \<noteq> [] then ext else HTML_EXT)
           in Inr (n @ ''-'' @ p @ ''.'' @ ext)))"

section \<open>The page transformer\<close>

text \<open>
  The parser is outside the module. Its tree is modelled by what the module reads and
  writes of it: the elements in document order, each with its name and its attributes
  (a dictionary, kept as an association list). A \<^verbatim>\<open>Tag\<close> object is a reference into
  the tree: here the position of the element. \<^verbatim>\<open>find_all(name)\<close> gives the elements of
  that name in document order, \<^verbatim>\<open>tag[key]\<close> raises \<^verbatim>\<open>KeyError\<close> for an attribute the
  element does not have, and \<^verbatim>\<open>tag[key] = value\<close> sets the attribute of that element.
  The text that \<^verbatim>\<open>prettify\<close> renders is left to the parser: the transform returns the
  tree itself.
\<close>

record tag =
  tag_name :: string
  attrs :: "(string \<times> string) list"

record resource =
  link :: string
  name :: string

definition TAGS_LINK_ATTRIBUTES :: "(string \<times> string) list" where
  "TAGS_LINK_ATTRIBUTES = [(''img'', ''src''), (''link'', ''href''), (''script'', ''src'')]"

definition find_all :: "tag list \<Rightarrow> string \<Rightarrow> nat list" where
  "find_all soup n = filter (\<lambda>i. tag_name (soup ! i) = n) [0..<length soup]"

text \<open>A \<^verbatim>\<open>for\<close> loop whose body may raise: the first exception ends it.\<close>

fun for_each :: "('a \<Rightarrow> 's \<Rightarrow> py_error + 's) \<Rightarrow> 'a list \<Rightarrow> 's \<Rightarrow> py_error + 's" where
  "for_each body [] s = Inr s"
| "for_each body (x # xs) s =
     (case body x s of Inl e \<Rightarrow> Inl e | Inr s' \<Rightarrow> for_each body xs s')"

text \<open>The body of the inner loop, for the element at position \<open>i\<close>.\<close>

definition visit_tag ::
  "env \<Rightarrow> string \<Rightarrow> string \<Rightarrow> nat \<Rightarrow> tag list \<times> resource list \<Rightarrow>
     py_error + (tag list \<times> resource list)" where
  "visit_tag E page_url dir_name i state =
     (let (soup, resources) = state; t = soup ! i
      in case map_of TAGS_LINK_ATTRIBUTES (tag_name t) of
           None \<Rightarrow> Inl (KeyError (tag_name t))
         | Some link_attr \<Rightarrow>
            (case map_of (attrs t) link_attr of
               None \<Rightarrow> Inl (KeyError link_attr)
             | Some raw \<Rightarrow>
                (case get_full_link E raw page_url of
                   Inl e \<Rightarrow> Inl e
                 | Inr l \<Rightarrow>
                    (case is_local_link E l page_url of
                       Inl e \<Rightarrow> Inl e
                     | Inr False \<Rightarrow> Inr (soup, resources)
                     | Inr True \<Rightarrow>
                        (case create_resource_name E l of
                           Inl e \<Rightarrow> Inl e
                         | Inr resource_name \<Rightarrow>
                             Inr (soup[i := t\<lparr>attrs :=
                                    AList.update link_attr
                                      (os_path_join (host_os E) dir_name resource_name)
                                      (attrs t)\<rparr>],
                                  resources @ [\<lparr>link = l, name = resource_name\<rparr>]))))))"

definition search_resources ::
  "env \<Rightarrow> tag list \<Rightarrow> string \<Rightarrow> py_error + (tag list \<times> resource list)" where
  "search_resources E soup page_url =
     (case get_dir_name E page_url of
        Inl e \<Rightarrow> Inl e
      | Inr dir_name \<Rightarrow>
          for_each
            (\<lambda>resource_tag state.
               for_each (visit_tag E page_url dir_name) (find_all (fst state) resource_tag) state)
            (map fst TAGS_LINK_ATTRIBUTES) (soup, []))"

section \<open>The resource fetcher\<close>

text \<open>
  The transport and the file system are outside the module. \<open>requests_get\<close> is
  \<^verbatim>\<open>requests.get\<close>: it raises, or it returns a response with a status code and a body.
  \<open>open_wb\<close> says whether \<^verbatim>\<open>open(path, 'wb')\<close> and the write succeed. What the loop does
  to the outside is recorded in order: the links requested and the files written.
\<close>

record response =
  status_code :: nat
  content :: string

record io =
  requests_get :: "string \<Rightarrow> py_error + response"
  open_wb :: "string \<Rightarrow> bool"

record trace =
  requested :: "string list"
  written :: "(string \<times> string) list"

fun save_resources ::
  "env \<Rightarrow> io \<Rightarrow> resource list \<Rightarrow> string \<Rightarrow> trace \<Rightarrow> trace \<times> (py_error + unit)" where
  "save_resources E w [] dir_path t = (t, Inr ())"
| "save_resources E w (r # resources) dir_path t =
     (let t = t\<lparr>requested := requested t @ [link r]\<rparr>
      in case requests_get w (link r) of
           Inl e \<Rightarrow> (t, Inl e)
         | Inr resp \<Rightarrow>
             (let resource_path = os_path_join (host_os E) dir_path (name r)
              in if open_wb w resource_path
                 then save_resources E w resources dir_path
                        (t\<lparr>written := written t @ [(resource_path, content resp)]\<rparr>)
                 else (t, Inl OSError)))"

section \<open>An environment for the examples\<close>

text \<open>\<^verbatim>\<open>os.path.splitext\<close> of \<^verbatim>\<open>posixpath\<close>: the extension starts at the last dot of the
  last component, unless only dots come before it there.\<close>

definition splitext :: "string \<Rightarrow> string \<times> string" where
  "splitext p =
     (let tail = rev (takeWhile (\<lambda>c. c \<noteq> CHR ''/'') (rev p));
          ext = CHR ''.'' # rev (takeWhile (\<lambda>c. c \<noteq> CHR ''.'') (rev tail));
          stem = take (length tail - length ext) tail
      in if CHR ''.'' \<in> set tail \<and> (\<exists>c \<in> set stem. c \<noteq> CHR ''.'')
         then (take (length p - length ext) p, ext)
         else (p, []))"


definition alphanumeric :: string where
  "alphanumeric = ''abcdefghijklmnopqrstuvwxyzABCDEFGHIJKLMNOPQRSTUVWXYZ0123456789''"

definition sanitize :: "string \<Rightarrow> string" where
  "sanitize s = map (\<lambda>c. if c \<in> set alphanumeric then c else CHR ''-'') s"

text \<open>Modelled from the spec: \<^verbatim>\<open>parse_url\<close> is a function of \<^verbatim>\<open>file_system_guide.py\<close>,
  which is not among the sources. The spec: take the link's host and path, strip the
  scheme; replace every character that is not alphanumeric with a hyphen; if the path
  contains a recognizable file extension, reuse it. The slash between host and path is
  the hyphen that \<open>create_resource_name\<close> writes between the two.\<close>

definition parse_url_model :: "(string \<Rightarrow> ip_version option) \<Rightarrow> string \<Rightarrow> py_error + url_parts" where
  "parse_url_model ip url =
     (case urlparse ip url [] of
        Inl e \<Rightarrow> Inl e
      | Inr r \<Rightarrow>
          (let (root, ext) = splitext (path r)
           in Inr \<lparr>netloc_part = sanitize (netloc r),
                    path_part = sanitize (if take 1 root = ''/'' then tl root else root),
                    ext_part = drop 1 ext\<rparr>))"

text \<open>Modelled from the spec: \<^verbatim>\<open>get_dir_name\<close> is a function of
  \<^verbatim>\<open>file_system_guide.py\<close>, which is not among the sources. The spec: the resource
  subdirectory is the single directory, named after the page, that holds the downloaded
  resources. Here it is the page's host and path, sanitized like a resource name, with
  the ending \<^verbatim>\<open>_files\<close>.\<close>

definition get_dir_name_model :: "(string \<Rightarrow> ip_version option) \<Rightarrow> string \<Rightarrow> py_error + string" where
  "get_dir_name_model ip url =
     (case urlparse ip url [] of
        Inl e \<Rightarrow> Inl e
      | Inr r \<Rightarrow> Inr (sanitize (netloc r @ path r) @ ''_files''))"

text \<open>The examples hold no bracketed host, so \<^verbatim>\<open>ipaddress.ip_address\<close> is never asked
  there; the environment of the examples lets it raise.\<close>

definition example_env :: "os_kind \<Rightarrow> env" where
  "example_env os =
     \<lparr>ip_address = (\<lambda>_. None), host_os = os,
      parse_url = parse_url_model (\<lambda>_. None),
      get_dir_name = get_dir_name_model (\<lambda>_. None)\<rparr>"

section \<open>Shapes of URLs\<close>

text \<open>
  The predicates of this section are not in the module: the properties of the link classifier
  are stated with them. A scheme as \<^verbatim>\<open>urlsplit\<close> accepts it starts with an ASCII letter and
  holds scheme characters only.
\<close>

definition valid_scheme :: "string \<Rightarrow> bool" where
  "valid_scheme s =
     (s \<noteq> [] \<and> isascii_isalpha (hd s) \<and> list_all (\<lambda>c. c \<in> set scheme_chars) s)"

text \<open>A network location as \<^verbatim>\<open>urlsplit\<close> returns it: none of the delimiters \<^verbatim>\<open>/?#\<close>, no tab,
  carriage return or line feed, and brackets only as a pair around a host that
  \<^verbatim>\<open>_check_bracketed_host\<close> accepts.\<close>

definition netloc_ok :: "(string \<Rightarrow> ip_version option) \<Rightarrow> string \<Rightarrow> bool" where
  "netloc_ok ip n =
     (list_all (\<lambda>c. c \<notin> set ''/?#'' \<and> c \<notin> set unsafe_url_bytes) n \<and>
      (CHR ''['' \<in> set n \<longleftrightarrow> CHR '']'' \<in> set n) \<and>
      (CHR ''['' \<in> set n \<longrightarrow>
         check_bracketed_host ip
           (takeWhile (\<lambda>c. c \<noteq> CHR '']'') (tl (dropWhile (\<lambda>c. c \<noteq> CHR ''['') n)))))"

text \<open>What follows the network location: nothing, or a text that starts with a delimiter.\<close>

definition rest_ok :: "string \<Rightarrow> bool" where
  "rest_ok r = (r = [] \<or> hd r \<in> set ''/?#'')"

text \<open>The last step of \<open>urlsplit\<close>: fragment and query are cut off the rest.\<close>

definition split_tail :: "string \<Rightarrow> string \<times> string \<times> string" where
  "split_tail url0 =
     (let (url, fragment) =
            (if CHR ''#'' \<in> set url0 then split_first CHR ''#'' url0 else (url0, []));
          (url, query) =
            (if CHR ''?'' \<in> set url then split_first CHR ''?'' url else (url, []))
      in (url, query, fragment))"


section \<open>What the transform does to one element\<close>

text \<open>
  The functions of this section are not in the module: they say, for one element, what the
  body of the loop of \<open>search_resources\<close> does, and the properties below are stated with
  them. \<open>local_link\<close> is the resolved link of an element of a listed kind that has its link
  attribute, when the link resolves and is local; \<open>local_resource\<close> is the record appended
  for it; \<open>rewrite_tag\<close> is the element after the pass.
\<close>

definition local_link :: "env \<Rightarrow> string \<Rightarrow> tag \<Rightarrow> string option" where
  "local_link E page_url t =
     (case map_of TAGS_LINK_ATTRIBUTES (tag_name t) of
        None \<Rightarrow> None
      | Some link_attr \<Rightarrow>
         (case map_of (attrs t) link_attr of
            None \<Rightarrow> None
          | Some raw \<Rightarrow>
             (case get_full_link E raw page_url of
                Inl e \<Rightarrow> None
              | Inr l \<Rightarrow> if is_local_link E l page_url = Inr True then Some l else None)))"

definition local_resource :: "env \<Rightarrow> string \<Rightarrow> tag \<Rightarrow> resource option" where
  "local_resource E page_url t =
     (case local_link E page_url t of
        None \<Rightarrow> None
      | Some l \<Rightarrow>
         (case create_resource_name E l of
            Inl e \<Rightarrow> None
          | Inr n \<Rightarrow> Some \<lparr>link = l, name = n\<rparr>))"

definition rewrite_tag :: "env \<Rightarrow> string \<Rightarrow> string \<Rightarrow> tag \<Rightarrow> tag" where
  "rewrite_tag E page_url dir_name t =
     (case (map_of TAGS_LINK_ATTRIBUTES (tag_name t), local_resource E page_url t) of
        (Some link_attr, Some r) \<Rightarrow>
          t\<lparr>attrs := AList.update link_attr (os_path_join (host_os E) dir_name (name r)) (attrs t)\<rparr>
      | _ \<Rightarrow> t)"

section \<open>What the fetch loop does to one resource\<close>

text \<open>
  These functions are not in the module either. \<open>fetch_ok\<close> says that one turn of the loop
  of \<open>save_resources\<close> raises nothing for a resource: \<^verbatim>\<open>requests.get\<close> returns a response
  and the file is written. \<open>failure_of\<close> is the exception of a turn that raises, and
  \<open>stored\<close> the file a turn writes: its path and its bytes, the body of the response.
\<close>

definition fetch_ok :: "env \<Rightarrow> io \<Rightarrow> string \<Rightarrow> resource \<Rightarrow> bool" where
  "fetch_ok E w dir_path r =
     (case requests_get w (link r) of
        Inl e \<Rightarrow> False
      | Inr resp \<Rightarrow> open_wb w (os_path_join (host_os E) dir_path (name r)))"

definition failure_of :: "io \<Rightarrow> resource \<Rightarrow> py_error" where
  "failure_of w r = (case requests_get w (link r) of Inl e \<Rightarrow> e | Inr resp \<Rightarrow> OSError)"

definition stored :: "env \<Rightarrow> io \<Rightarrow> string \<Rightarrow> resource \<Rightarrow> string \<times> string" where
  "stored E w dir_path r =
     (os_path_join (host_os E) dir_path (name r),
      case requests_get w (link r) of Inl e \<Rightarrow> [] | Inr resp \<Rightarrow> content resp)"

section \<open>Properties of the page transformer\<close>

lemma tag_name_rewrite_tag [simp]: "tag_name (rewrite_tag E p d t) = tag_name t"
  by (simp add: rewrite_tag_def split: option.splits)

lemma rewrite_tag_other:
  "map_of TAGS_LINK_ATTRIBUTES (tag_name t) = None \<Longrightarrow> rewrite_tag E p d t = t"
  by (simp add: rewrite_tag_def)

lemma visit_tag_result:
  assumes "visit_tag E p d i (s, rs) = Inr (s', rs')" and "i < length s"
  shows "s' = s[i := rewrite_tag E p d (s ! i)] \<and>
         rs' = rs @ (case local_resource E p (s ! i) of None \<Rightarrow> [] | Some r \<Rightarrow> [r])"
  using assms
  by (auto simp: visit_tag_def Let_def local_resource_def local_link_def rewrite_tag_def
      split: option.splits sum.splits bool.splits if_splits)

lemma visit_tag_named:
  assumes "visit_tag E p d i (s, rs) = Inr (s', rs')"
  shows "local_link E p (s ! i) \<noteq> None \<longrightarrow> local_resource E p (s ! i) \<noteq> None"
  using assms
  by (auto simp: visit_tag_def Let_def local_resource_def local_link_def
      split: option.splits sum.splits bool.splits if_splits)

lemma for_each_visit_tag:
  assumes "for_each (visit_tag E p d) js (s, rs) = Inr (s', rs')"
    and "distinct js" and "\<forall>i \<in> set js. i < length s"
  shows "length s' = length s \<and>
         (\<forall>j < length s. s' ! j = (if j \<in> set js then rewrite_tag E p d (s ! j) else s ! j)) \<and>
         rs' = rs @ concat (map (\<lambda>i. case local_resource E p (s ! i) of None \<Rightarrow> [] | Some r \<Rightarrow> [r]) js) \<and>
         (\<forall>j \<in> set js. local_link E p (s ! j) \<noteq> None \<longrightarrow> local_resource E p (s ! j) \<noteq> None)"
  using assms
proof (induction js arbitrary: s rs)
  case Nil
  then show ?case by simp
next
  case (Cons i js)
  from Cons.prems(1) obtain s1 rs1 where
    v: "visit_tag E p d i (s, rs) = Inr (s1, rs1)" and
    r: "for_each (visit_tag E p d) js (s1, rs1) = Inr (s', rs')"
    by (auto split: sum.splits)
  from Cons.prems have i: "i < length s" and ni: "i \<notin> set js" and dj: "distinct js"
    and bj: "\<forall>k \<in> set js. k < length s" by auto
  from visit_tag_result [OF v i] have s1: "s1 = s[i := rewrite_tag E p d (s ! i)]"
    and rs1: "rs1 = rs @ (case local_resource E p (s ! i) of None \<Rightarrow> [] | Some r \<Rightarrow> [r])"
    by auto
  have len: "length s1 = length s" by (simp add: s1)
  have same: "s1 ! k = s ! k" if "k \<in> set js" for k
  proof -
    from that ni have "i \<noteq> k" by auto
    then show ?thesis by (simp add: s1)
  qed
  from bj len have bj1: "\<forall>k \<in> set js. k < length s1" by simp
  note IH = Cons.IH [OF r dj bj1]
  have m: "map (\<lambda>i. case local_resource E p (s1 ! i) of None \<Rightarrow> [] | Some r \<Rightarrow> [r]) js =
           map (\<lambda>i. case local_resource E p (s ! i) of None \<Rightarrow> [] | Some r \<Rightarrow> [r]) js"
    by (rule map_cong) (simp_all add: same)
  show ?case
  proof (intro conjI)
    show "length s' = length s" using IH len by simp
  next
    show "\<forall>j < length s. s' ! j = (if j \<in> set (i # js) then rewrite_tag E p d (s ! j) else s ! j)"
    proof (intro allI impI)
    fix j assume j: "j < length s"
    show "s' ! j = (if j \<in> set (i # js) then rewrite_tag E p d (s ! j) else s ! j)"
    proof (cases "j \<in> set js")
      case True
      with IH j len same show ?thesis by simp
    next
      case False
      with IH j len have "s' ! j = s1 ! j" by simp
      then show ?thesis using False j by (auto simp: s1)
    qed
    qed
  next
    show "rs' = rs @ concat (map (\<lambda>i. case local_resource E p (s ! i) of None \<Rightarrow> [] | Some r \<Rightarrow> [r]) (i # js))"
      using IH m rs1 by simp
  next
    show "\<forall>j \<in> set (i # js). local_link E p (s ! j) \<noteq> None \<longrightarrow> local_resource E p (s ! j) \<noteq> None"
      using IH same visit_tag_named [OF v] by auto
  qed
qed

lemma find_all_bounds: "distinct (find_all s k) \<and> (\<forall>i \<in> set (find_all s k). i < length s)"
  by (simp add: find_all_def)

lemma find_all_cong:
  assumes "length cur = length s" and "\<forall>j < length s. tag_name (cur ! j) = tag_name (s ! j)"
  shows "find_all cur k = find_all s k"
  unfolding find_all_def using assms by (auto intro: filter_cong)

lemma set_find_all: "j < length s \<Longrightarrow> j \<in> set (find_all s k) \<longleftrightarrow> tag_name (s ! j) = k"
  by (simp add: find_all_def)

lemma map_find_all:
  "map (\<lambda>i. f (s ! i)) (find_all s k) = map f (filter (\<lambda>t. tag_name t = k) s)"
proof -
  have "map (\<lambda>i. f (s ! i)) (find_all s k) =
        map f (map ((!) s) (filter ((\<lambda>t. tag_name t = k) \<circ> (!) s) [0..<length s]))"
    by (simp add: find_all_def comp_def)
  also have "\<dots> = map f (filter (\<lambda>t. tag_name t = k) (map ((!) s) [0..<length s]))"
    by (simp only: filter_map)
  finally show ?thesis by (simp add: map_nth)
qed

lemma concat_option_map_filter:
  "concat (map (\<lambda>t. case f t of None \<Rightarrow> [] | Some r \<Rightarrow> [r]) xs) = List.map_filter f xs"
  by (induction xs) (auto simp: List.map_filter_simps split: option.splits)

lemma for_each_kinds:
  assumes "for_each (\<lambda>k st. for_each (visit_tag E p d) (find_all (fst st) k) st) ks (cur, rs)
             = Inr (s', rs')"
    and "distinct ks" and "length cur = length s"
    and "\<forall>j < length s. tag_name (cur ! j) = tag_name (s ! j)"
    and "\<forall>j < length s. tag_name (s ! j) \<in> set ks \<longrightarrow> cur ! j = s ! j"
  shows "length s' = length s \<and>
         (\<forall>j < length s. s' ! j =
            (if tag_name (s ! j) \<in> set ks then rewrite_tag E p d (s ! j) else cur ! j)) \<and>
         rs' = rs @ concat (map (\<lambda>k. List.map_filter (local_resource E p)
                                       (filter (\<lambda>t. tag_name t = k) s)) ks) \<and>
         (\<forall>j < length s. tag_name (s ! j) \<in> set ks \<longrightarrow>
            local_link E p (s ! j) \<noteq> None \<longrightarrow> local_resource E p (s ! j) \<noteq> None)"
  using assms
proof (induction ks arbitrary: cur rs)
  case Nil
  then show ?case by simp
next
  case (Cons k ks)
  let ?o = "\<lambda>t. case local_resource E p t of None \<Rightarrow> [] | Some r \<Rightarrow> [r]"
  from Cons.prems(1) obtain s1 rs1 where
    v: "for_each (visit_tag E p d) (find_all cur k) (cur, rs) = Inr (s1, rs1)" and
    r: "for_each (\<lambda>k st. for_each (visit_tag E p d) (find_all (fst st) k) st) ks (s1, rs1)
          = Inr (s', rs')"
    by (auto split: sum.splits)
  note len = Cons.prems(3) and names = Cons.prems(4) and fresh = Cons.prems(5)
  from Cons.prems(2) have k: "k \<notin> set ks" and dk: "distinct ks" by auto
  have fa: "find_all cur k = find_all s k" by (rule find_all_cong [OF len names])
  from find_all_bounds [of cur k]
  have inner: "length s1 = length cur \<and>
         (\<forall>j < length cur. s1 ! j =
            (if j \<in> set (find_all cur k) then rewrite_tag E p d (cur ! j) else cur ! j)) \<and>
         rs1 = rs @ concat (map (\<lambda>i. ?o (cur ! i)) (find_all cur k)) \<and>
         (\<forall>j \<in> set (find_all cur k).
            local_link E p (cur ! j) \<noteq> None \<longrightarrow> local_resource E p (cur ! j) \<noteq> None)"
    by (intro for_each_visit_tag [OF v]) auto
  have named: "local_link E p (s ! j) \<noteq> None \<longrightarrow> local_resource E p (s ! j) \<noteq> None"
    if "j < length s" "tag_name (s ! j) = k" for j
  proof -
    from that have "j \<in> set (find_all cur k)" by (simp add: fa set_find_all)
    moreover from that fresh have "cur ! j = s ! j" by simp
    ultimately show ?thesis using inner by auto
  qed
  have s1: "s1 ! j = (if tag_name (s ! j) = k then rewrite_tag E p d (s ! j) else cur ! j)"
    if "j < length s" for j
  proof (cases "tag_name (s ! j) = k")
    case True
    with that have "j \<in> set (find_all cur k)" by (simp add: fa set_find_all)
    moreover from True that fresh have "cur ! j = s ! j" by simp
    ultimately show ?thesis using inner that len True by simp
  next
    case False
    with that have "j \<notin> set (find_all cur k)" by (simp add: fa set_find_all)
    then show ?thesis using inner that len False by simp
  qed
  have len1: "length s1 = length s" using inner len by simp
  have names1: "\<forall>j < length s. tag_name (s1 ! j) = tag_name (s ! j)"
    using s1 names by simp
  have fresh1: "\<forall>j < length s. tag_name (s ! j) \<in> set ks \<longrightarrow> s1 ! j = s ! j"
    using s1 fresh k by auto
  note IH = Cons.IH [OF r dk len1 names1 fresh1]
  have "map (\<lambda>i. ?o (cur ! i)) (find_all cur k) = map (\<lambda>i. ?o (s ! i)) (find_all s k)"
    unfolding fa
  proof (rule map_cong [OF refl])
    fix i assume "i \<in> set (find_all s k)"
    then have "i < length s" "tag_name (s ! i) = k" by (simp_all add: find_all_def)
    with fresh show "?o (cur ! i) = ?o (s ! i)" by simp
  qed
  also have "\<dots> = map ?o (filter (\<lambda>t. tag_name t = k) s)"
    by (rule map_find_all)
  finally have rs1: "rs1 = rs @ List.map_filter (local_resource E p) (filter (\<lambda>t. tag_name t = k) s)"
    using inner by (simp only: concat_option_map_filter)
  show ?case
  proof (intro conjI)
    show "length s' = length s" using IH by simp
  next
    show "\<forall>j < length s. s' ! j =
            (if tag_name (s ! j) \<in> set (k # ks) then rewrite_tag E p d (s ! j) else cur ! j)"
    proof (intro allI impI)
      fix j assume j: "j < length s"
      show "s' ! j = (if tag_name (s ! j) \<in> set (k # ks) then rewrite_tag E p d (s ! j) else cur ! j)"
        using IH j s1 [OF j] k by auto
    qed
  next
    show "\<forall>j < length s. tag_name (s ! j) \<in> set (k # ks) \<longrightarrow>
            local_link E p (s ! j) \<noteq> None \<longrightarrow> local_resource E p (s ! j) \<noteq> None"
      using IH named by auto
  next
    show "rs' = rs @ concat (map (\<lambda>k. List.map_filter (local_resource E p)
                                       (filter (\<lambda>t. tag_name t = k) s)) (k # ks))"
      using IH rs1 by simp
  qed
qed

lemma search_resources_result:
  assumes "search_resources E soup p = Inr (soup', rs)"
  shows "\<exists>d. get_dir_name E p = Inr d \<and> soup' = map (rewrite_tag E p d) soup \<and>
             rs = concat (map (\<lambda>k. List.map_filter (local_resource E p)
                                     (filter (\<lambda>t. tag_name t = k) soup))
                            [''img'', ''link'', ''script'']) \<and>
             (\<forall>t \<in> set soup. local_link E p t \<noteq> None \<longrightarrow> local_resource E p t \<noteq> None)"
proof -
  from assms obtain d where d: "get_dir_name E p = Inr d" and
    run: "for_each (\<lambda>k st. for_each (visit_tag E p d) (find_all (fst st) k) st)
            [''img'', ''link'', ''script''] (soup, []) = Inr (soup', rs)"
    by (auto simp: search_resources_def TAGS_LINK_ATTRIBUTES_def split: sum.splits)
  have res: "length soup' = length soup \<and>
         (\<forall>j < length soup. soup' ! j =
            (if tag_name (soup ! j) \<in> set [''img'', ''link'', ''script'']
             then rewrite_tag E p d (soup ! j) else soup ! j)) \<and>
         rs = [] @ concat (map (\<lambda>k. List.map_filter (local_resource E p)
                                       (filter (\<lambda>t. tag_name t = k) soup))
                             [''img'', ''link'', ''script'']) \<and>
         (\<forall>j < length soup. tag_name (soup ! j) \<in> set [''img'', ''link'', ''script''] \<longrightarrow>
            local_link E p (soup ! j) \<noteq> None \<longrightarrow> local_resource E p (soup ! j) \<noteq> None)"
    by (rule for_each_kinds [OF run]) simp_all
  have named: "\<forall>t \<in> set soup. local_link E p t \<noteq> None \<longrightarrow> local_resource E p t \<noteq> None"
  proof (intro ballI impI)
    fix t assume t: "t \<in> set soup" and l: "local_link E p t \<noteq> None"
    from t obtain j where j: "j < length soup" "soup ! j = t" by (auto simp: in_set_conv_nth)
    from l have "tag_name t \<in> set [''img'', ''link'', ''script'']"
      by (auto simp: local_link_def TAGS_LINK_ATTRIBUTES_def split: option.splits if_splits)
    with res j l show "local_resource E p t \<noteq> None" by auto
  qed
  have "soup' = map (rewrite_tag E p d) soup"
  proof (rule nth_equalityI)
    show "length soup' = length (map (rewrite_tag E p d) soup)" using res by simp
  next
    fix j assume "j < length soup'"
    with res have j: "j < length soup" by simp
    show "soup' ! j = map (rewrite_tag E p d) soup ! j"
    proof (cases "tag_name (soup ! j) \<in> set [''img'', ''link'', ''script'']")
      case True
      with res j show ?thesis by simp
    next
      case False
      then have "map_of TAGS_LINK_ATTRIBUTES (tag_name (soup ! j)) = None"
        by (simp add: TAGS_LINK_ATTRIBUTES_def)
      with res j False show ?thesis by (simp add: rewrite_tag_other)
    qed
  qed
  with d res named show ?thesis by simp
qed

lemma local_resource_SomeD:
  assumes "local_resource E p t = Some r"
  shows "local_link E p t = Some (link r) \<and> create_resource_name E (link r) = Inr (name r) \<and>
         is_local_link E (link r) p = Inr True"
  using assms
  by (auto simp: local_resource_def local_link_def split: option.splits sum.splits if_splits)

lemma map_filter_SomeD: "r \<in> set (List.map_filter f xs) \<Longrightarrow> \<exists>x \<in> set xs. f x = Some r"
  by (auto simp: List.map_filter_def)

text \<open>C10: every entry of the resource list that \<open>search_resources\<close> returns has as its name the
  result of \<open>create_resource_name\<close> on its link, and its link is local to the page.\<close>

theorem search_resources_entries_named_and_local:
  assumes "search_resources E soup page_url = Inr (soup', resources)"
  shows "\<forall>r \<in> set resources.
           create_resource_name E (link r) = Inr (name r) \<and>
           is_local_link E (link r) page_url = Inr True"
proof
  fix r assume "r \<in> set resources"
  with search_resources_result [OF assms]
  obtain k where "r \<in> set (List.map_filter (local_resource E page_url)
                              (filter (\<lambda>t. tag_name t = k) soup))"
    by auto
  then obtain t where "local_resource E page_url t = Some r"
    by (auto dest: map_filter_SomeD)
  then show "create_resource_name E (link r) = Inr (name r) \<and>
             is_local_link E (link r) page_url = Inr True"
    by (simp add: local_resource_SomeD)
qed

theorem search_resources_entries_named_and_local_witness:
  "search_resources (example_env Posix)
     [\<lparr>tag_name = ''img'', attrs = [(''src'', ''/images/a.png'')]\<rparr>,
      \<lparr>tag_name = ''script'', attrs = [(''src'', ''https://cdn.other.com/x.js'')]\<rparr>,
      \<lparr>tag_name = ''link'', attrs = [(''href'', ''style.css'')]\<rparr>]
     ''https://example.com/blog/post''
   = Inr ([\<lparr>tag_name = ''img'',
             attrs = [(''src'', ''example-com-blog-post_files/example-com-images-a.png'')]\<rparr>,
           \<lparr>tag_name = ''script'', attrs = [(''src'', ''https://cdn.other.com/x.js'')]\<rparr>,
           \<lparr>tag_name = ''link'',
             attrs = [(''href'', ''example-com-blog-post_files/example-com-style.css'')]\<rparr>],
          [\<lparr>link = ''https://example.com/images/a.png'', name = ''example-com-images-a.png''\<rparr>,
           \<lparr>link = ''https://example.com/style.css'', name = ''example-com-style.css''\<rparr>]) \<and>
   create_resource_name (example_env Posix) ''https://example.com/images/a.png''
     = Inr ''example-com-images-a.png'' \<and>
   is_local_link (example_env Posix) ''https://example.com/images/a.png''
     ''https://example.com/blog/post'' = Inr True \<and>
   create_resource_name (example_env Posix) ''https://example.com/style.css''
     = Inr ''example-com-style.css'' \<and>
   is_local_link (example_env Posix) ''https://example.com/style.css''
     ''https://example.com/blog/post'' = Inr True"
  (is "?run \<and> ?rest")
proof -
  have run: ?run by code_simp
  from search_resources_entries_named_and_local [OF run] have ?rest by simp
  with run show ?thesis by simp
qed

text \<open>C1 (amended): the resource list is grouped by the kind of element, in the order of the table
  (\<^verbatim>\<open>img\<close>, \<^verbatim>\<open>link\<close>, \<^verbatim>\<open>script\<close>); within one kind the entries follow the document.\<close>

theorem search_resources_groups_by_kind:
  assumes "search_resources E soup page_url = Inr (soup', resources)"
  shows "resources =
           concat (map (\<lambda>kind. List.map_filter (local_resource E page_url)
                                  (filter (\<lambda>t. tag_name t = kind) soup))
                     [''img'', ''link'', ''script''])"
  using search_resources_result [OF assms] by auto

theorem search_resources_groups_by_kind_witness:
  "search_resources (example_env Posix)
     [\<lparr>tag_name = ''script'', attrs = [(''src'', ''/js/app.js'')]\<rparr>,
      \<lparr>tag_name = ''img'', attrs = [(''src'', ''/images/a.png'')]\<rparr>]
     ''https://example.com/blog/post''
   = Inr ([\<lparr>tag_name = ''script'',
             attrs = [(''src'', ''example-com-blog-post_files/example-com-js-app.js'')]\<rparr>,
           \<lparr>tag_name = ''img'',
             attrs = [(''src'', ''example-com-blog-post_files/example-com-images-a.png'')]\<rparr>],
          [\<lparr>link = ''https://example.com/images/a.png'', name = ''example-com-images-a.png''\<rparr>,
           \<lparr>link = ''https://example.com/js/app.js'', name = ''example-com-js-app.js''\<rparr>]) \<and>
   [\<lparr>link = ''https://example.com/images/a.png'', name = ''example-com-images-a.png''\<rparr>,
    \<lparr>link = ''https://example.com/js/app.js'', name = ''example-com-js-app.js''\<rparr>]
   = concat (map (\<lambda>kind. List.map_filter
                    (local_resource (example_env Posix) ''https://example.com/blog/post'')
                    (filter (\<lambda>t. tag_name t = kind)
                       [\<lparr>tag_name = ''script'', attrs = [(''src'', ''/js/app.js'')]\<rparr>,
                        \<lparr>tag_name = ''img'', attrs = [(''src'', ''/images/a.png'')]\<rparr>]))
               [''img'', ''link'', ''script''])"
  (is "?run \<and> ?rest")
proof -
  have run: ?run by code_simp
  have ?rest by (rule search_resources_groups_by_kind [OF run])
  with run show ?thesis by simp
qed

text \<open>C3: an element of a listed kind without its link attribute is not skipped: the lookup
  \<^verbatim>\<open>tag[link_attr]\<close> raises \<^verbatim>\<open>KeyError\<close> and the transform returns nothing.\<close>

theorem search_resources_missing_attribute:
  "search_resources (example_env Posix) [\<lparr>tag_name = ''script'', attrs = []\<rparr>]
     ''https://example.com/blog/post'' = Inl (KeyError ''src'')"
  by code_simp

text \<open>C1 as stated fails: the script comes first in the document and last in the resource list.\<close>

theorem search_resources_order_counterexample:
  "search_resources (example_env Posix)
     [\<lparr>tag_name = ''script'', attrs = [(''src'', ''/js/app.js'')]\<rparr>,
      \<lparr>tag_name = ''img'', attrs = [(''src'', ''/images/a.png'')]\<rparr>]
     ''https://example.com/blog/post''
   = Inr ([\<lparr>tag_name = ''script'',
             attrs = [(''src'', ''example-com-blog-post_files/example-com-js-app.js'')]\<rparr>,
           \<lparr>tag_name = ''img'',
             attrs = [(''src'', ''example-com-blog-post_files/example-com-images-a.png'')]\<rparr>],
          [\<lparr>link = ''https://example.com/images/a.png'', name = ''example-com-images-a.png''\<rparr>,
           \<lparr>link = ''https://example.com/js/app.js'', name = ''example-com-js-app.js''\<rparr>])"
  by code_simp

lemma local_resource_other:
  "tag_name t \<notin> set [''img'', ''link'', ''script''] \<Longrightarrow> local_resource E p t = None"
  by (simp add: local_resource_def local_link_def TAGS_LINK_ATTRIBUTES_def)

lemma mset_kinds:
  "mset (concat (map (\<lambda>kind. List.map_filter (local_resource E p)
                                (filter (\<lambda>t. tag_name t = kind) soup))
                   [''img'', ''link'', ''script'']))
   = mset (List.map_filter (local_resource E p) soup)"
proof (induction soup)
  case Nil
  show ?case by (simp add: List.map_filter_simps)
next
  case (Cons t soup)
  consider "tag_name t = ''img''" | "tag_name t = ''link''" | "tag_name t = ''script''"
    | "tag_name t \<notin> set [''img'', ''link'', ''script'']" by auto
  then show ?case
  proof cases
    case 4
    then have "local_resource E p t = None" by (rule local_resource_other)
    with Cons 4 show ?thesis by (auto simp: List.map_filter_simps)
  qed (use Cons in \<open>auto simp: List.map_filter_simps split: option.splits\<close>)
qed

lemma posixpath_join_plain:
  "dir_name \<noteq> [] \<Longrightarrow> last dir_name \<noteq> CHR ''/'' \<Longrightarrow> take 1 n \<noteq> ''/'' \<Longrightarrow>
   posixpath_join dir_name n = dir_name @ ''/'' @ n"
  by (simp add: posixpath_join_def)

lemma rewrite_tag_cases:
  assumes "local_link E p t \<noteq> None \<longrightarrow> local_resource E p t \<noteq> None"
  shows "case local_link E p t of
           None \<Rightarrow> rewrite_tag E p d t = t
         | Some l \<Rightarrow> \<exists>a n. map_of TAGS_LINK_ATTRIBUTES (tag_name t) = Some a \<and>
               create_resource_name E l = Inr n \<and>
               rewrite_tag E p d t =
                 t\<lparr>attrs := AList.update a (os_path_join (host_os E) d n) (attrs t)\<rparr>"
  using assms
  by (auto simp: rewrite_tag_def local_resource_def local_link_def
      split: option.splits sum.splits if_splits)

lemma ntpath_join_plain:
  assumes "nt_splitdrive d = ([], d)" and "nt_splitdrive n = ([], n)"
    and "d \<noteq> []" and "last d \<notin> set nt_seps" and "n = [] \<or> hd n \<notin> set nt_seps"
  shows "ntpath_join d n = d @ [CHR 0x5C] @ n"
  using assms by (auto simp: ntpath_join_def nt_sep_def)

text \<open>C5 (amended): when the transform returns, every element whose link attribute resolves to a
  local link has that attribute set to \<^verbatim>\<open>os.path.join(dir_name, name)\<close>, every other element is
  as it was, and the resource list holds one record for each such element and no other record.
  On a POSIX host the new value is \<^verbatim>\<open>dir_name/name\<close>, for a directory name that is not empty
  and does not end with a slash and a resource name that does not start with one. On a Windows
  host it is the two names with a backslash between them, when \<^verbatim>\<open>ntpath.splitdrive\<close> finds no
  drive in either, the directory name is not empty and does not end with a separator, and the
  resource name does not start with one.\<close>

theorem search_resources_rewrites_local_links:
  assumes "search_resources E soup page_url = Inr (soup', resources)"
  shows "\<exists>dir_name. get_dir_name E page_url = Inr dir_name \<and> length soup' = length soup \<and>
           (\<forall>i < length soup.
              case local_link E page_url (soup ! i) of
                None \<Rightarrow> soup' ! i = soup ! i
              | Some l \<Rightarrow>
                  \<exists>a n. map_of TAGS_LINK_ATTRIBUTES (tag_name (soup ! i)) = Some a \<and>
                    create_resource_name E l = Inr n \<and>
                    soup' ! i = (soup ! i)\<lparr>attrs :=
                      AList.update a (os_path_join (host_os E) dir_name n) (attrs (soup ! i))\<rparr> \<and>
                    (host_os E = Posix \<and> dir_name \<noteq> [] \<and> last dir_name \<noteq> CHR ''/'' \<and>
                     take 1 n \<noteq> ''/'' \<longrightarrow>
                       os_path_join (host_os E) dir_name n = dir_name @ ''/'' @ n) \<and>
                    (host_os E = Nt \<and> nt_splitdrive dir_name = ([], dir_name) \<and>
                     nt_splitdrive n = ([], n) \<and> dir_name \<noteq> [] \<and>
                     last dir_name \<notin> set nt_seps \<and> (n = [] \<or> hd n \<notin> set nt_seps) \<longrightarrow>
                       os_path_join (host_os E) dir_name n = dir_name @ [CHR 0x5C] @ n)) \<and>
           mset resources = mset (List.map_filter (local_resource E page_url) soup)"
proof -
  from search_resources_result [OF assms] obtain d where
    d: "get_dir_name E page_url = Inr d" and
    s: "soup' = map (rewrite_tag E page_url d) soup" and
    r: "resources = concat (map (\<lambda>k. List.map_filter (local_resource E page_url)
                                     (filter (\<lambda>t. tag_name t = k) soup))
                            [''img'', ''link'', ''script''])" and
    n: "\<forall>t \<in> set soup. local_link E page_url t \<noteq> None \<longrightarrow> local_resource E page_url t \<noteq> None"
    by blast
  have sep: "(host_os E = Posix \<and> d \<noteq> [] \<and> last d \<noteq> CHR ''/'' \<and> take 1 n \<noteq> ''/'' \<longrightarrow>
               os_path_join (host_os E) d n = d @ ''/'' @ n) \<and>
             (host_os E = Nt \<and> nt_splitdrive d = ([], d) \<and> nt_splitdrive n = ([], n) \<and> d \<noteq> [] \<and>
              last d \<notin> set nt_seps \<and> (n = [] \<or> hd n \<notin> set nt_seps) \<longrightarrow>
               os_path_join (host_os E) d n = d @ [CHR 0x5C] @ n)" for n
    using posixpath_join_plain [of d n] ntpath_join_plain [of d n]
    by (auto simp: os_path_join_def)
  have each: "case local_link E page_url (soup ! i) of
                None \<Rightarrow> soup' ! i = soup ! i
              | Some l \<Rightarrow>
                  \<exists>a n. map_of TAGS_LINK_ATTRIBUTES (tag_name (soup ! i)) = Some a \<and>
                    create_resource_name E l = Inr n \<and>
                    soup' ! i = (soup ! i)\<lparr>attrs :=
                      AList.update a (os_path_join (host_os E) d n) (attrs (soup ! i))\<rparr> \<and>
                    (host_os E = Posix \<and> d \<noteq> [] \<and> last d \<noteq> CHR ''/'' \<and>
                     take 1 n \<noteq> ''/'' \<longrightarrow>
                       os_path_join (host_os E) d n = d @ ''/'' @ n) \<and>
                    (host_os E = Nt \<and> nt_splitdrive d = ([], d) \<and>
                     nt_splitdrive n = ([], n) \<and> d \<noteq> [] \<and>
                     last d \<notin> set nt_seps \<and> (n = [] \<or> hd n \<notin> set nt_seps) \<longrightarrow>
                       os_path_join (host_os E) d n = d @ [CHR 0x5C] @ n)"
    if i: "i < length soup" for i
  proof (cases "local_link E page_url (soup ! i)")
    case None
    with rewrite_tag_cases [of E page_url "soup ! i" d] i show ?thesis by (simp add: s)
  next
    case (Some l)
    with i n have "local_link E page_url (soup ! i) \<noteq> None \<longrightarrow>
                   local_resource E page_url (soup ! i) \<noteq> None" by simp
    from rewrite_tag_cases [OF this, of d] Some obtain a m where
      am: "map_of TAGS_LINK_ATTRIBUTES (tag_name (soup ! i)) = Some a"
        "create_resource_name E l = Inr m"
        "rewrite_tag E page_url d (soup ! i) =
           (soup ! i)\<lparr>attrs := AList.update a (os_path_join (host_os E) d m) (attrs (soup ! i))\<rparr>"
      by auto
    from am(3) i have "soup' ! i =
           (soup ! i)\<lparr>attrs := AList.update a (os_path_join (host_os E) d m) (attrs (soup ! i))\<rparr>"
      by (simp add: s)
    with am(1,2) sep [of m] Some show ?thesis by (simp only: option.case) blast
  qed
  have "mset resources = mset (List.map_filter (local_resource E page_url) soup)"
    unfolding r by (rule mset_kinds)
  with d s each show ?thesis by simp
qed

theorem search_resources_rewrites_local_links_witness:
  "search_resources (example_env Posix)
     [\<lparr>tag_name = ''img'', attrs = [(''src'', ''/images/a.png'')]\<rparr>,
      \<lparr>tag_name = ''script'', attrs = [(''src'', ''https://cdn.other.com/x.js'')]\<rparr>]
     ''https://example.com/blog/post''
   = Inr ([\<lparr>tag_name = ''img'',
             attrs = [(''src'', ''example-com-blog-post_files/example-com-images-a.png'')]\<rparr>,
           \<lparr>tag_name = ''script'', attrs = [(''src'', ''https://cdn.other.com/x.js'')]\<rparr>],
          [\<lparr>link = ''https://example.com/images/a.png'', name = ''example-com-images-a.png''\<rparr>]) \<and>
   mset [\<lparr>link = ''https://example.com/images/a.png'', name = ''example-com-images-a.png''\<rparr>]
   = mset (List.map_filter (local_resource (example_env Posix) ''https://example.com/blog/post'')
       [\<lparr>tag_name = ''img'', attrs = [(''src'', ''/images/a.png'')]\<rparr>,
        \<lparr>tag_name = ''script'', attrs = [(''src'', ''https://cdn.other.com/x.js'')]\<rparr>]) \<and>
   search_resources (example_env Nt)
     [\<lparr>tag_name = ''img'', attrs = [(''src'', ''/images/a.png'')]\<rparr>]
     ''https://example.com/blog/post''
   = Inr ([\<lparr>tag_name = ''img'',
             attrs = [(''src'', ''example-com-blog-post_files'' @ [CHR 0x5C] @
                                ''example-com-images-a.png'')]\<rparr>],
          [\<lparr>link = ''https://example.com/images/a.png'', name = ''example-com-images-a.png''\<rparr>]) \<and>
   nt_splitdrive ''example-com-blog-post_files'' = ([], ''example-com-blog-post_files'') \<and>
   nt_splitdrive ''example-com-images-a.png'' = ([], ''example-com-images-a.png'') \<and>
   os_path_join (host_os (example_env Nt)) ''example-com-blog-post_files''
     ''example-com-images-a.png''
   = ''example-com-blog-post_files'' @ [CHR 0x5C] @ ''example-com-images-a.png''"
  (is "?run \<and> ?count \<and> ?runN \<and> ?d1 \<and> ?d2 \<and> ?join")
proof -
  have run: ?run by code_simp
  from search_resources_rewrites_local_links [OF run] have count: ?count by blast
  have runN: ?runN by code_simp
  have d1: ?d1 by code_simp
  have d2: ?d2 by code_simp
  have gd: "get_dir_name (example_env Nt) ''https://example.com/blog/post''
              = Inr ''example-com-blog-post_files''" by code_simp
  have ll: "local_link (example_env Nt) ''https://example.com/blog/post''
              ([\<lparr>tag_name = ''img'', attrs = [(''src'', ''/images/a.png'')]\<rparr>] ! 0)
            = Some ''https://example.com/images/a.png''" by code_simp
  have cn: "create_resource_name (example_env Nt) ''https://example.com/images/a.png''
              = Inr ''example-com-images-a.png''" by code_simp
  have os: "host_os (example_env Nt) = Nt" by (simp add: example_env_def)
  have side: "''example-com-blog-post_files'' \<noteq> [] \<and>
              last ''example-com-blog-post_files'' \<notin> set nt_seps \<and>
              hd ''example-com-images-a.png'' \<notin> set nt_seps" by code_simp
  from search_resources_rewrites_local_links [OF runN] obtain dn where
    dn: "get_dir_name (example_env Nt) ''https://example.com/blog/post'' = Inr dn" and
    each: "\<forall>i < length [\<lparr>tag_name = ''img'', attrs = [(''src'', ''/images/a.png'')]\<rparr>].
              case local_link (example_env Nt) ''https://example.com/blog/post''
                     ([\<lparr>tag_name = ''img'', attrs = [(''src'', ''/images/a.png'')]\<rparr>] ! i) of
                None \<Rightarrow> True
              | Some l \<Rightarrow>
                  \<exists>n. create_resource_name (example_env Nt) l = Inr n \<and>
                    (host_os (example_env Nt) = Nt \<and> nt_splitdrive dn = ([], dn) \<and>
                     nt_splitdrive n = ([], n) \<and> dn \<noteq> [] \<and>
                     last dn \<notin> set nt_seps \<and> (n = [] \<or> hd n \<notin> set nt_seps) \<longrightarrow>
                       os_path_join (host_os (example_env Nt)) dn n = dn @ [CHR 0x5C] @ n)"
    by (fastforce split: option.splits)
  from dn gd have dn': "dn = ''example-com-blog-post_files''" by simp
  from each have "case local_link (example_env Nt) ''https://example.com/blog/post''
                     ([\<lparr>tag_name = ''img'', attrs = [(''src'', ''/images/a.png'')]\<rparr>] ! 0) of
                None \<Rightarrow> True
              | Some l \<Rightarrow>
                  \<exists>n. create_resource_name (example_env Nt) l = Inr n \<and>
                    (host_os (example_env Nt) = Nt \<and> nt_splitdrive dn = ([], dn) \<and>
                     nt_splitdrive n = ([], n) \<and> dn \<noteq> [] \<and>
                     last dn \<notin> set nt_seps \<and> (n = [] \<or> hd n \<notin> set nt_seps) \<longrightarrow>
                       os_path_join (host_os (example_env Nt)) dn n = dn @ [CHR 0x5C] @ n)"
    by (elim allE [of _ 0]) simp
  then obtain n where n: "create_resource_name (example_env Nt) ''https://example.com/images/a.png''
                           = Inr n" and
    j: "host_os (example_env Nt) = Nt \<and> nt_splitdrive dn = ([], dn) \<and>
        nt_splitdrive n = ([], n) \<and> dn \<noteq> [] \<and>
        last dn \<notin> set nt_seps \<and> (n = [] \<or> hd n \<notin> set nt_seps) \<longrightarrow>
          os_path_join (host_os (example_env Nt)) dn n = dn @ [CHR 0x5C] @ n"
    unfolding ll by auto
  from n cn have n': "n = ''example-com-images-a.png''" by simp
  from j os d1 d2 side have join: ?join unfolding dn' n' by blast
  from run count runN d1 d2 join show ?thesis by (intro conjI)
qed

text \<open>C5 as stated fails on a Windows host: \<^verbatim>\<open>os.path.join\<close> is \<^verbatim>\<open>ntpath.join\<close> there and the
  separator written into the markup is the backslash.\<close>

theorem search_resources_separator_counterexample:
  "search_resources (example_env Nt)
     [\<lparr>tag_name = ''img'', attrs = [(''src'', ''/images/a.png'')]\<rparr>]
     ''https://example.com/blog/post''
   = Inr ([\<lparr>tag_name = ''img'',
             attrs = [(''src'', ''example-com-blog-post_files'' @ [CHR 0x5C] @
                                ''example-com-images-a.png'')]\<rparr>],
          [\<lparr>link = ''https://example.com/images/a.png'', name = ''example-com-images-a.png''\<rparr>])"
  by code_simp

section \<open>Properties of the resource fetcher\<close>

text \<open>C4 (amended): the loop takes the resources in list order and stops at the first one for which
  \<^verbatim>\<open>requests.get\<close> raises or the file cannot be written: the resources before it are requested
  and written, it is requested, nothing after it is requested or written, and the exception is
  the result. When no turn raises, every resource is requested and written, in order.\<close>

theorem save_resources_in_order_first_failure_aborts:
  "save_resources E w resources dir_path t =
     (let done = takeWhile (fetch_ok E w dir_path) resources
      in (t\<lparr>requested := requested t @ map link (take (Suc (length done)) resources),
             written := written t @ map (stored E w dir_path) done\<rparr>,
          if length done = length resources then Inr ()
          else Inl (failure_of w (resources ! length done))))"
proof (induction resources arbitrary: t)
  case Nil
  show ?case by simp
next
  case (Cons r resources)
  show ?case
  proof (cases "requests_get w (link r)")
    case (Inl e)
    then show ?thesis by (simp add: fetch_ok_def failure_of_def Let_def)
  next
    case (Inr resp)
    show ?thesis
    proof (cases "open_wb w (os_path_join (host_os E) dir_path (name r))")
      case True
      with Inr have ok: "fetch_ok E w dir_path r" by (simp add: fetch_ok_def)
      show ?thesis
        using Inr True ok Cons.IH
        by (simp add: Let_def stored_def)
    next
      case False
      with Inr show ?thesis by (simp add: fetch_ok_def failure_of_def Let_def)
    qed
  qed
qed

theorem save_resources_in_order_first_failure_aborts_witness:
  "save_resources (example_env Posix)
     \<lparr>requests_get = (\<lambda>u. if u = ''https://example.com/a.png''
                           then Inr \<lparr>status_code = 200, content = ''PNG''\<rparr>
                           else Inl RequestException),
      open_wb = (\<lambda>p. True)\<rparr>
     [\<lparr>link = ''https://example.com/a.png'', name = ''example-com-a.png''\<rparr>,
      \<lparr>link = ''https://example.com/b.css'', name = ''example-com-b.css''\<rparr>,
      \<lparr>link = ''https://example.com/c.js'', name = ''example-com-c.js''\<rparr>]
     ''/tmp/example-com_files'' \<lparr>requested = [], written = []\<rparr>
   = (\<lparr>requested = [''https://example.com/a.png'', ''https://example.com/b.css''],
       written = [(''/tmp/example-com_files/example-com-a.png'', ''PNG'')]\<rparr>,
      Inl RequestException)"
  by (subst save_resources_in_order_first_failure_aborts) code_simp

text \<open>C4 as stated fails for a failure at the HTTP level: \<^verbatim>\<open>requests.get\<close> returns the response
  with status 404, no status is looked at, the body is written as the resource and the loop
  ends without an exception.\<close>

theorem save_resources_http_error_counterexample:
  "save_resources (example_env Posix)
     \<lparr>requests_get = (\<lambda>u. Inr \<lparr>status_code = 404, content = ''Not Found''\<rparr>),
      open_wb = (\<lambda>p. True)\<rparr>
     [\<lparr>link = ''https://example.com/a.png'', name = ''example-com-a.png''\<rparr>]
     ''/tmp/example-com_files'' \<lparr>requested = [], written = []\<rparr>
   = (\<lparr>requested = [''https://example.com/a.png''],
       written = [(''/tmp/example-com_files/example-com-a.png'', ''Not Found'')]\<rparr>,
      Inr ())"
  by code_simp

section \<open>Properties of the resource namer\<close>






section \<open>Properties of the link classifier\<close>

lemma remove_unsafe_filter:
  "remove_unsafe s = filter (\<lambda>c. c \<notin> set unsafe_url_bytes) s"
  by (induction s) (auto simp: remove_unsafe_def unsafe_url_bytes_def)

lemma remove_unsafe_append: "remove_unsafe (a @ b) = remove_unsafe a @ remove_unsafe b"
  by (simp add: remove_unsafe_filter)

lemma remove_unsafe_id: "list_all (\<lambda>c. c \<notin> set unsafe_url_bytes) s \<Longrightarrow> remove_unsafe s = s"
  by (simp add: remove_unsafe_filter list_all_iff)

lemma remove_unsafe_clean: "list_all (\<lambda>c. c \<notin> set unsafe_url_bytes) (remove_unsafe s)"
  by (simp add: remove_unsafe_filter list_all_iff)

lemma scheme_char_safe: "c \<in> set scheme_chars \<Longrightarrow> c \<notin> set unsafe_url_bytes"
  by (auto simp: scheme_chars_def unsafe_url_bytes_def)

lemma scheme_char_not_colon: "c \<in> set scheme_chars \<Longrightarrow> c \<noteq> CHR '':''"
  by (auto simp: scheme_chars_def)

lemma alpha_not_c0: "isascii_isalpha c \<Longrightarrow> \<not> is_c0_or_space c"
  by (auto simp: isascii_isalpha_def ascii_letters_def is_c0_or_space_def)

lemma valid_scheme_facts:
  assumes "valid_scheme s"
  shows "remove_unsafe s = s" and "CHR '':'' \<notin> set s" and "lstrip_c0 (s @ x) = s @ x"
    and "s \<noteq> []"
proof -
  from assms have ne: "s \<noteq> []" and al: "isascii_isalpha (hd s)"
    and sc: "\<forall>c \<in> set s. c \<in> set scheme_chars"
    by (auto simp: valid_scheme_def list_all_iff)
  show "s \<noteq> []" by (rule ne)
  from sc show "remove_unsafe s = s"
    by (intro remove_unsafe_id) (auto simp: list_all_iff dest: scheme_char_safe)
  from sc show "CHR '':'' \<notin> set s" by (auto dest: scheme_char_not_colon)
  from ne al show "lstrip_c0 (s @ x) = s @ x"
    by (cases s) (auto simp: lstrip_c0_def dest: alpha_not_c0)
qed

lemma takeWhile_not_mem: "c \<notin> set a \<Longrightarrow> takeWhile (\<lambda>x. x \<noteq> c) (a @ c # b) = a"
  by (induction a) auto

lemma find_char_first:
  "c \<notin> set a \<Longrightarrow> find_char c (a @ c # b) = Some (length a)"
  by (simp add: find_char_def find_from_def takeWhile_not_mem)

lemma split_scheme_valid:
  assumes "valid_scheme s"
  shows "split_scheme (s @ CHR '':'' # x) d = (lower s, x)"
proof -
  from assms have ne: "s \<noteq> []" and al: "isascii_isalpha (hd s)"
    and sc: "list_all (\<lambda>c. c \<in> set scheme_chars) s"
    by (auto simp: valid_scheme_def)
  from valid_scheme_facts(2) [OF assms]
  have f: "find_char CHR '':'' (s @ CHR '':'' # x) = Some (length s)"
    by (rule find_char_first)
  from ne have h: "(s @ CHR '':'' # x) ! 0 = hd s" by (cases s) auto
  show ?thesis
    using ne al sc by (simp add: split_scheme_def f h)
qed

lemma min_length_takeWhile:
  "min (length (takeWhile P xs)) (length (takeWhile Q xs)) =
   length (takeWhile (\<lambda>x. P x \<and> Q x) xs)"
  by (induction xs) auto

lemma length_takeWhile_absent:
  "c \<notin> set xs \<Longrightarrow> length (takeWhile (\<lambda>x. x \<noteq> c) xs) = length xs"
  by (induction xs) auto

lemma find_from_min:
  assumes "d \<le> length url" and "start \<le> length url"
  shows "(case find_from c start url of Some w \<Rightarrow> min d w | None \<Rightarrow> d) =
         min d (start + length (takeWhile (\<lambda>x. x \<noteq> c) (drop start url)))"
  using assms by (auto simp: find_from_def length_takeWhile_absent)

lemma splitnetloc_takeWhile:
  assumes "2 \<le> length url"
  shows "splitnetloc url 2 =
           (takeWhile (\<lambda>c. c \<notin> set ''/?#'') (drop 2 url),
            dropWhile (\<lambda>c. c \<notin> set ''/?#'') (drop 2 url))"
proof -
  let ?x = "drop 2 url"
  let ?t = "\<lambda>c. length (takeWhile (\<lambda>x. x \<noteq> c) ?x)"
  let ?nd = "\<lambda>c. c \<notin> set ''/?#''"
  have nd: "?nd = (\<lambda>x. (x \<noteq> CHR ''/'' \<and> x \<noteq> CHR ''?'') \<and> x \<noteq> CHR ''#'')" by auto
  have le: "\<And>c. ?t c \<le> length ?x" by (rule length_takeWhile_le)
  have "fold (\<lambda>c d. case find_from c 2 url of Some w \<Rightarrow> min d w | None \<Rightarrow> d) ''/?#'' (length url)
        = min (min (min (length url) (2 + ?t CHR ''/'')) (2 + ?t CHR ''?'')) (2 + ?t CHR ''#'')"
    using assms by (simp add: find_from_min)
  also have "\<dots> = 2 + min (min (?t CHR ''/'') (?t CHR ''?'')) (?t CHR ''#'')"
    using assms le [of "CHR ''/''"] by auto
  also have "\<dots> = 2 + length (takeWhile ?nd ?x)"
    unfolding nd by (simp only: min_length_takeWhile)
  finally have delim:
    "fold (\<lambda>c d. case find_from c 2 url of Some w \<Rightarrow> min d w | None \<Rightarrow> d) ''/?#'' (length url)
       = 2 + length (takeWhile ?nd ?x)" .
  have "take (length (takeWhile ?nd ?x)) ?x = takeWhile ?nd ?x"
    by (rule takeWhile_eq_take [symmetric])
  moreover have "drop (2 + length (takeWhile ?nd ?x)) url = dropWhile ?nd ?x"
    by (simp add: dropWhile_eq_drop add.commute)
  ultimately show ?thesis
    unfolding splitnetloc_def delim Let_def by simp
qed

lemma netloc_ok_chars:
  "netloc_ok ip n \<Longrightarrow> \<forall>c \<in> set n. c \<notin> set ''/?#'' \<and> c \<notin> set unsafe_url_bytes"
  by (simp add: netloc_ok_def list_all_iff)

lemma takeWhile_append_stop:
  assumes "\<forall>c \<in> set n. P c" and "r = [] \<or> \<not> P (hd r)"
  shows "takeWhile P (n @ r) = n \<and> dropWhile P (n @ r) = r"
  using assms by (induction n) (cases r; auto)+

lemma split_netloc_checked_ok:
  assumes "netloc_ok ip n" and "rest_ok r"
  shows "split_netloc_checked ip (''//'' @ n @ r) = Inr (n, r)"
proof -
  from netloc_ok_chars [OF assms(1)] have d: "\<forall>c \<in> set n. c \<notin> set ''/?#''" by blast
  from assms(2) have r: "r = [] \<or> \<not> hd r \<notin> set ''/?#''" by (simp add: rest_ok_def)
  have t2: "take 2 (''//'' @ n @ r) = ''//''" and d2: "drop 2 (''//'' @ n @ r) = n @ r"
    and l2: "2 \<le> length (''//'' @ n @ r)"
    by simp_all
  have sp: "splitnetloc (''//'' @ n @ r) 2 = (n, r)"
    unfolding splitnetloc_takeWhile [OF l2] d2
    using takeWhile_append_stop [of n "\<lambda>c. c \<notin> set ''/?#''" r, OF d r] by simp
  show ?thesis
    unfolding split_netloc_checked_def t2 sp
    using assms(1) by (auto simp: netloc_ok_def)
qed

lemma rest_ok_remove_unsafe: "rest_ok r \<Longrightarrow> rest_ok (remove_unsafe r)"
  by (cases r) (auto simp: rest_ok_def remove_unsafe_filter unsafe_url_bytes_def)

lemma urlsplit_absolute:
  assumes "valid_scheme s" and "netloc_ok ip n" and "rest_ok r"
  shows "urlsplit ip (s @ ''://'' @ n @ r) d =
           (case split_tail (remove_unsafe r) of
              (u, q, f) \<Rightarrow> Inr (lower s, n, u, q, f))"
proof -
  have l: "lstrip_c0 (s @ ''://'' @ n @ r) = s @ ''://'' @ n @ r"
    by (rule valid_scheme_facts(3) [OF assms(1)])
  from netloc_ok_chars [OF assms(2)] have "list_all (\<lambda>c. c \<notin> set unsafe_url_bytes) n"
    by (simp add: list_all_iff)
  then have n: "remove_unsafe n = n" by (rule remove_unsafe_id)
  have c: "remove_unsafe ''://'' = ''://''"
    by (simp add: remove_unsafe_filter unsafe_url_bytes_def)
  have u: "remove_unsafe (s @ ''://'' @ n @ r) = s @ CHR '':'' # (''//'' @ n @ remove_unsafe r)"
    using c by (simp add: remove_unsafe_append valid_scheme_facts(1) [OF assms(1)] n
        del: append.simps)
  have sc: "split_scheme (s @ CHR '':'' # (''//'' @ n @ remove_unsafe r)) (remove_unsafe (strip_c0 d))
              = (lower s, ''//'' @ n @ remove_unsafe r)"
    by (rule split_scheme_valid [OF assms(1)])
  have nl: "split_netloc_checked ip (''//'' @ n @ remove_unsafe r) = Inr (n, remove_unsafe r)"
    by (rule split_netloc_checked_ok [OF assms(2) rest_ok_remove_unsafe [OF assms(3)]])
  show ?thesis
    unfolding urlsplit_def l u Let_def sc prod.case nl sum.case split_tail_def
    by (simp add: Let_def split: prod.splits)
qed

lemma urlparse_absolute:
  assumes "valid_scheme s" and "netloc_ok ip n" and "rest_ok r"
  shows "\<exists>pr. urlparse ip (s @ ''://'' @ n @ r) d = Inr pr \<and> scheme pr = lower s \<and> netloc pr = n"
  unfolding urlparse_def urlsplit_absolute [OF assms]
  by (auto simp: Let_def split: prod.splits)

lemma urlparse_origin:
  assumes "valid_scheme s" and "netloc_ok ip n"
  shows "urlparse ip (s @ ''://'' @ n) d =
           Inr \<lparr>scheme = lower s, netloc = n, path = [], params = [], query = [], fragment = []\<rparr>"
proof -
  have "rest_ok []" by (simp add: rest_ok_def)
  from urlsplit_absolute [OF assms this, of d]
  have "urlsplit ip (s @ ''://'' @ n) d = Inr (lower s, n, [], [], [])"
    by (simp add: split_tail_def remove_unsafe_filter)
  then show ?thesis by (simp add: urlparse_def)
qed

lemma split_scheme_clean:
  assumes "list_all (\<lambda>c. c \<notin> set unsafe_url_bytes) x" and "split_scheme x y = (a, b)"
  shows "list_all (\<lambda>c. c \<notin> set unsafe_url_bytes) b"
  using assms
  by (auto simp: split_scheme_def list_all_iff split: option.splits if_splits dest: in_set_dropD)

lemma split_netloc_checked_netloc_ok:
  assumes "list_all (\<lambda>c. c \<notin> set unsafe_url_bytes) url"
    and "split_netloc_checked ip url = Inr (n, r)"
  shows "netloc_ok ip n"
proof (cases "take 2 url = ''//''")
  case False
  with assms(2) have "n = []" by (simp add: split_netloc_checked_def)
  then show ?thesis by (simp add: netloc_ok_def)
next
  case True
  then have l2: "2 \<le> length url" by (cases url; cases "tl url"; auto)
  let ?n = "takeWhile (\<lambda>c. c \<notin> set ''/?#'') (drop 2 url)"
  from assms(2) True have n: "n = ?n"
    and b1: "CHR ''['' \<in> set ?n \<longleftrightarrow> CHR '']'' \<in> set ?n"
    and b2: "CHR ''['' \<in> set ?n \<longrightarrow> check_bracketed_host ip
           (takeWhile (\<lambda>c. c \<noteq> CHR '']'') (tl (dropWhile (\<lambda>c. c \<noteq> CHR ''['') ?n)))"
    unfolding split_netloc_checked_def splitnetloc_takeWhile [OF l2]
    by (auto split: if_splits)
  have "\<forall>c \<in> set ?n. c \<notin> set ''/?#''" by (auto dest: set_takeWhileD)
  moreover have "\<forall>c \<in> set ?n. c \<notin> set unsafe_url_bytes"
    using assms(1) by (auto simp: list_all_iff dest!: set_takeWhileD in_set_dropD)
  ultimately have "list_all (\<lambda>c. c \<notin> set ''/?#'' \<and> c \<notin> set unsafe_url_bytes) ?n"
    unfolding list_all_iff by blast
  with b1 b2 show ?thesis unfolding n netloc_ok_def by (intro conjI)
qed

lemma urlsplit_netloc_ok:
  assumes "urlsplit ip u d = Inr (sc, n, p, q, f)"
  shows "netloc_ok ip n"
proof -
  obtain a b where ab: "split_scheme (remove_unsafe (lstrip_c0 u)) (remove_unsafe (strip_c0 d)) = (a, b)"
    by (cases "split_scheme (remove_unsafe (lstrip_c0 u)) (remove_unsafe (strip_c0 d))")
  have clean: "list_all (\<lambda>c. c \<notin> set unsafe_url_bytes) b"
    by (rule split_scheme_clean [OF remove_unsafe_clean ab])
  from assms ab obtain r where "split_netloc_checked ip b = Inr (n, r)"
    by (auto simp: urlsplit_def Let_def split: sum.splits prod.splits)
  with clean show ?thesis by (rule split_netloc_checked_netloc_ok)
qed

lemma urlparse_netloc_ok:
  assumes "urlparse ip u d = Inr pr"
  shows "netloc_ok ip (netloc pr)"
  using assms
  by (auto simp: urlparse_def Let_def split: sum.splits prod.splits dest: urlsplit_netloc_ok)

lemma http_scheme_facts:
  assumes "s \<in> {''http'', ''https''}"
  shows "valid_scheme s" and "lower s = s" and "s \<in> set uses_relative" and "s \<in> set uses_netloc"
    and "s \<in> set uses_params" and "remove_unsafe (strip_c0 s) = s" and "s \<noteq> []"
proof -
  have a: "valid_scheme ''http'' \<and> lower ''http'' = ''http'' \<and> ''http'' \<in> set uses_relative \<and>
           ''http'' \<in> set uses_netloc \<and> ''http'' \<in> set uses_params \<and>
           remove_unsafe (strip_c0 ''http'') = ''http''"
    by code_simp
  have b: "valid_scheme ''https'' \<and> lower ''https'' = ''https'' \<and> ''https'' \<in> set uses_relative \<and>
           ''https'' \<in> set uses_netloc \<and> ''https'' \<in> set uses_params \<and>
           remove_unsafe (strip_c0 ''https'') = ''https''"
    by code_simp
  from assms a b show "valid_scheme s" and "lower s = s" and "s \<in> set uses_relative"
    and "s \<in> set uses_netloc" and "s \<in> set uses_params" and "remove_unsafe (strip_c0 s) = s"
    and "s \<noteq> []"
    by auto
qed

lemma length_takeWhile_present:
  "c \<in> set x \<Longrightarrow> length (takeWhile (\<lambda>y. y \<noteq> c) x) < length x"
  by (induction x) auto

lemma find_char_less: "find_char c x = Some i \<Longrightarrow> i < length x"
  by (auto simp: find_char_def find_from_def length_takeWhile_present split: if_splits)

lemma split_scheme_default:
  assumes "split_scheme x [] = ([], b)"
  shows "split_scheme x d = (d, x) \<and> b = x"
proof (cases "find_char CHR '':'' x")
  case None
  with assms show ?thesis by (simp add: split_scheme_def)
next
  case (Some i)
  then have "i < length x" by (rule find_char_less)
  then have "0 < i \<Longrightarrow> lower (take i x) \<noteq> []" by (auto simp: lower_def)
  with assms Some show ?thesis by (auto simp: split_scheme_def split: if_splits)
qed

lemma urlsplit_default:
  assumes "urlsplit ip l [] = Inr ([], n, p, q, f)" and "remove_unsafe (strip_c0 d) = d"
  shows "urlsplit ip l d = Inr (d, n, p, q, f)"
proof -
  have e: "remove_unsafe (strip_c0 []) = []" by (simp add: strip_c0_def remove_unsafe_filter)
  obtain a b where ab: "split_scheme (remove_unsafe (lstrip_c0 l)) [] = (a, b)"
    by (cases "split_scheme (remove_unsafe (lstrip_c0 l)) []")
  from assms(1) ab have "a = []"
    by (auto simp: urlsplit_def e Let_def split: sum.splits prod.splits)
  with ab split_scheme_default [of "remove_unsafe (lstrip_c0 l)" b d]
  have d: "split_scheme (remove_unsafe (lstrip_c0 l)) d = (d, remove_unsafe (lstrip_c0 l))"
    and b: "b = remove_unsafe (lstrip_c0 l)" by simp_all
  from assms(1) show ?thesis
    unfolding urlsplit_def e assms(2) Let_def ab d b
    by (auto split: sum.splits prod.splits)
qed

lemma urlparse_default:
  assumes "urlparse ip l [] = Inr r" and "scheme r = []" and "d \<in> {''http'', ''https''}"
  shows "urlparse ip l d = Inr (r\<lparr>scheme := d\<rparr>)"
proof -
  from assms(1,2) obtain n u q f where
    sp: "urlsplit ip l [] = Inr ([], n, u, q, f)"
    by (auto simp: urlparse_def Let_def split: sum.splits prod.splits)
  have e: "[] \<in> set uses_params" by (simp add: uses_params_def)
  from urlsplit_default [OF sp http_scheme_facts(6) [OF assms(3)]]
  have "urlsplit ip l d = Inr (d, n, u, q, f)" .
  with assms(1) sp e http_scheme_facts(5) [OF assms(3)] show ?thesis
    by (auto simp: urlparse_def Let_def split: prod.splits)
qed

lemma urlunparse_shape:
  assumes "scheme r \<in> {''http'', ''https''}"
  shows "\<exists>rest. urlunparse r = scheme r @ ''://'' @ netloc r @ rest \<and> rest_ok rest"
proof -
  let ?u = "if params r \<noteq> [] then path r @ '';'' @ params r else path r"
  let ?x = "if ?u \<noteq> [] \<and> take 1 ?u \<noteq> ''/'' then ''/'' @ ?u else ?u"
  let ?rest = "?x @ (if query r \<noteq> [] then ''?'' @ query r else []) @
                    (if fragment r \<noteq> [] then ''#'' @ fragment r else [])"
  have "urlunparse r = scheme r @ ''://'' @ netloc r @ ?rest"
    using http_scheme_facts(4,7) [OF assms]
    by (simp add: urlunparse_def urlunsplit_def Let_def)
  moreover have "rest_ok ?rest"
    by (cases ?u) (auto simp: rest_ok_def)
  ultimately show ?thesis by (intro exI [of _ ?rest] conjI)
qed









lemma get_full_link_joined:
  assumes "urlparse (ip_address E) page_url [] = Inr page"
    and "scheme page \<in> {''http'', ''https''}"
    and "urlparse (ip_address E) l [] = Inr rsc"
    and "scheme rsc = []" and "netloc rsc = []" and "l \<noteq> []"
  shows "get_full_link E l page_url =
           Inr (urlunparse
             (if path rsc = [] \<and> params rsc = []
              then rsc\<lparr>scheme := scheme page, netloc := netloc page\<rparr>
              else rsc\<lparr>scheme := scheme page, netloc := netloc page,
                       path := resolve_path [] (path rsc)\<rparr>))"
proof -
  let ?ip = "ip_address E" and ?s = "scheme page" and ?n = "netloc page"
  note sf = http_scheme_facts [OF assms(2)]
  have nok: "netloc_ok ?ip ?n" by (rule urlparse_netloc_ok [OF assms(1)])
  define base where "base = ?s @ ''://'' @ ?n"
  have b: "urlparse ?ip base [] =
             Inr \<lparr>scheme = ?s, netloc = ?n, path = [], params = [], query = [], fragment = []\<rparr>"
    unfolding base_def using urlparse_origin [OF sf(1) nok, of "[]"] by (simp only: sf(2))
  have u: "urlparse ?ip l ?s = Inr (rsc\<lparr>scheme := ?s\<rparr>)"
    by (rule urlparse_default [OF assms(3,4,2)])
  have base: "base \<noteq> []" by (simp add: base_def)
  have "urljoin ?ip base l =
           Inr (urlunparse
             (if path rsc = [] \<and> params rsc = []
              then rsc\<lparr>scheme := scheme page, netloc := netloc page\<rparr>
              else rsc\<lparr>scheme := scheme page, netloc := netloc page,
                       path := resolve_path [] (path rsc)\<rparr>))"
    using base assms(5,6) sf(3,4)
    by (auto simp: urljoin_def b u Let_def
        intro!: arg_cong [where f = urlunparse] parse_result.equality)
  then show ?thesis
    using assms(1,3,5) by (simp add: get_full_link_def DOMAIN_ADDRESS_def Let_def base_def)
qed


text \<open>C6: the locality check compares the network locations that \<^verbatim>\<open>urlparse\<close> returns for
  the link and for the page, and for two absolute URLs these are the host texts as written:
  the check is true exactly when the two texts are equal, letter case, port and trailing dot
  included.\<close>

theorem is_local_link_exact_netloc:
  "(urlparse (ip_address E) l [] = Inr a \<and> urlparse (ip_address E) p [] = Inr c \<longrightarrow>
      is_local_link E l p = Inr (netloc a = netloc c)) \<and>
   (valid_scheme s1 \<and> netloc_ok (ip_address E) h1 \<and> rest_ok r1 \<and>
    valid_scheme s2 \<and> netloc_ok (ip_address E) h2 \<and> rest_ok r2 \<longrightarrow>
      is_local_link E (s1 @ ''://'' @ h1 @ r1) (s2 @ ''://'' @ h2 @ r2) = Inr (h1 = h2))"
proof (intro conjI impI)
  assume "urlparse (ip_address E) l [] = Inr a \<and> urlparse (ip_address E) p [] = Inr c"
  then show "is_local_link E l p = Inr (netloc a = netloc c)"
    by (simp add: is_local_link_def)
next
  assume h: "valid_scheme s1 \<and> netloc_ok (ip_address E) h1 \<and> rest_ok r1 \<and>
    valid_scheme s2 \<and> netloc_ok (ip_address E) h2 \<and> rest_ok r2"
  from h urlparse_absolute [of s1 "ip_address E" h1 r1 "[]"]
  obtain a where a: "urlparse (ip_address E) (s1 @ ''://'' @ h1 @ r1) [] = Inr a" "netloc a = h1"
    by blast
  from h urlparse_absolute [of s2 "ip_address E" h2 r2 "[]"]
  obtain c where c: "urlparse (ip_address E) (s2 @ ''://'' @ h2 @ r2) [] = Inr c" "netloc c = h2"
    by blast
  show "is_local_link E (s1 @ ''://'' @ h1 @ r1) (s2 @ ''://'' @ h2 @ r2) = Inr (h1 = h2)"
    unfolding is_local_link_def a(1) c(1) by (simp add: a(2) c(2))
qed

theorem is_local_link_exact_netloc_witness:
  "valid_scheme ''https'' \<and> netloc_ok (ip_address (example_env Posix)) ''sub.example.com'' \<and>
   rest_ok ''/a.png'' \<and> netloc_ok (ip_address (example_env Posix)) ''example.com'' \<and>
   rest_ok ''/blog/post'' \<and>
   is_local_link (example_env Posix) ''https://sub.example.com/a.png''
     ''https://example.com/blog/post'' = Inr False \<and>
   netloc_ok (ip_address (example_env Posix)) ''EXAMPLE.com'' \<and>
   is_local_link (example_env Posix) ''https://EXAMPLE.com/a.png''
     ''https://example.com/blog/post'' = Inr False \<and>
   netloc_ok (ip_address (example_env Posix)) ''example.com:443'' \<and>
   is_local_link (example_env Posix) ''https://example.com:443/a.png''
     ''https://example.com/blog/post'' = Inr False \<and>
   is_local_link (example_env Posix) ''https://example.com/a.png''
     ''https://example.com/blog/post'' = Inr True"
proof -
  have s: "valid_scheme ''https''" by code_simp
  have n1: "netloc_ok (ip_address (example_env Posix)) ''sub.example.com''" by code_simp
  have n2: "netloc_ok (ip_address (example_env Posix)) ''example.com''" by code_simp
  have n3: "netloc_ok (ip_address (example_env Posix)) ''EXAMPLE.com''" by code_simp
  have n4: "netloc_ok (ip_address (example_env Posix)) ''example.com:443''" by code_simp
  have r1: "rest_ok ''/a.png''" by code_simp
  have r2: "rest_ok ''/blog/post''" by code_simp
  note t = is_local_link_exact_netloc [THEN conjunct2, rule_format, OF conjI, OF s conjI,
      OF _ conjI, OF _ r1 conjI, OF _ s conjI, OF _ n2 r2]
  from t [OF n1] t [OF n3] t [OF n4] t [OF n2] s n1 n2 n3 n4 r1 r2
  show ?thesis by simp
qed

text \<open>Where link resolution does return a full URL: for a page URL with scheme \<^verbatim>\<open>http\<close> or
  \<^verbatim>\<open>https\<close> and a network location, and a raw link with neither a scheme nor a network
  location, the result is a URL that \<^verbatim>\<open>urlparse\<close> reads with the page's scheme and the page's
  network location.\<close>

theorem get_full_link_absolute_for_relative_links:
  assumes "urlparse (ip_address E) page_url [] = Inr page"
    and "scheme page \<in> {''http'', ''https''}" and "netloc page \<noteq> []"
    and "urlparse (ip_address E) l [] = Inr rsc" and "scheme rsc = []" and "netloc rsc = []"
  shows "\<exists>full r. get_full_link E l page_url = Inr full \<and>
           urlparse (ip_address E) full [] = Inr r \<and>
           scheme r = scheme page \<and> netloc r = netloc page \<and> scheme r \<noteq> [] \<and> netloc r \<noteq> []"
proof -
  let ?ip = "ip_address E" and ?s = "scheme page" and ?n = "netloc page"
  note sf = http_scheme_facts [OF assms(2)]
  have nok: "netloc_ok ?ip ?n" by (rule urlparse_netloc_ok [OF assms(1)])
  have "\<exists>rest. get_full_link E l page_url = Inr (?s @ ''://'' @ ?n @ rest) \<and> rest_ok rest"
  proof (cases "l = []")
    case True
    have "get_full_link E l page_url = Inr (?s @ ''://'' @ ?n @ [])"
      using assms(1,4,6) True
      by (simp add: get_full_link_def DOMAIN_ADDRESS_def urljoin_def)
    moreover have "rest_ok []" by (simp add: rest_ok_def)
    ultimately show ?thesis by blast
  next
    case False
    let ?r = "if path rsc = [] \<and> params rsc = []
              then rsc\<lparr>scheme := ?s, netloc := ?n\<rparr>
              else rsc\<lparr>scheme := ?s, netloc := ?n, path := resolve_path [] (path rsc)\<rparr>"
    have g: "get_full_link E l page_url = Inr (urlunparse ?r)"
      by (rule get_full_link_joined [OF assms(1,2,4,5,6) False])
    have f: "scheme ?r = ?s" "netloc ?r = ?n" by simp_all
    with assms(2) have "scheme ?r \<in> {''http'', ''https''}" by simp
    from urlunparse_shape [OF this] f g show ?thesis by auto
  qed
  then obtain rest where g: "get_full_link E l page_url = Inr (?s @ ''://'' @ ?n @ rest)"
    and r: "rest_ok rest" by blast
  from urlparse_absolute [OF sf(1) nok r, of "[]"] obtain pr where
    "urlparse ?ip (?s @ ''://'' @ ?n @ rest) [] = Inr pr" "scheme pr = ?s" "netloc pr = ?n"
    by (auto simp: sf(2))
  with g assms(3) sf(7) show ?thesis by auto
qed

theorem get_full_link_absolute_for_relative_links_witness:
  "urlparse (ip_address (example_env Posix)) ''https://example.com/blog/post'' []
     = Inr \<lparr>scheme = ''https'', netloc = ''example.com'', path = ''/blog/post'',
            params = [], query = [], fragment = []\<rparr> \<and>
   urlparse (ip_address (example_env Posix)) ''../img/a.png?x=1'' []
     = Inr \<lparr>scheme = [], netloc = [], path = ''../img/a.png'',
            params = [], query = ''x=1'', fragment = []\<rparr> \<and>
   (\<exists>full r. get_full_link (example_env Posix) ''../img/a.png?x=1''
                ''https://example.com/blog/post'' = Inr full \<and>
      urlparse (ip_address (example_env Posix)) full [] = Inr r \<and>
      scheme r = ''https'' \<and> netloc r = ''example.com'')"
proof -
  have a: "urlparse (ip_address (example_env Posix)) ''https://example.com/blog/post'' []
     = Inr \<lparr>scheme = ''https'', netloc = ''example.com'', path = ''/blog/post'',
            params = [], query = [], fragment = []\<rparr>" by code_simp
  have b: "urlparse (ip_address (example_env Posix)) ''../img/a.png?x=1'' []
     = Inr \<lparr>scheme = [], netloc = [], path = ''../img/a.png'',
            params = [], query = ''x=1'', fragment = []\<rparr>" by code_simp
  from get_full_link_absolute_for_relative_links [OF a _ _ b]
  have "\<exists>full r. get_full_link (example_env Posix) ''../img/a.png?x=1''
                ''https://example.com/blog/post'' = Inr full \<and>
      urlparse (ip_address (example_env Posix)) full [] = Inr r \<and>
      scheme r = ''https'' \<and> netloc r = ''example.com''"
    by auto
  with a b show ?thesis by blast
qed

text \<open>C9: a protocol-relative link has a network location, so link resolution returns it as it is,
  without a scheme: the result is not a full URL. When its host is the page's, the transform
  records the link without a scheme as a resource to fetch.\<close>

theorem get_full_link_protocol_relative_not_full:
  "get_full_link (example_env Posix) ''//example.com/x.js'' ''https://example.com/blog/post''
     = Inr ''//example.com/x.js'' \<and>
   urlparse (ip_address (example_env Posix)) ''//example.com/x.js'' []
     = Inr \<lparr>scheme = [], netloc = ''example.com'', path = ''/x.js'',
            params = [], query = [], fragment = []\<rparr> \<and>
   search_resources (example_env Posix)
     [\<lparr>tag_name = ''script'', attrs = [(''src'', ''//example.com/x.js'')]\<rparr>]
     ''https://example.com/blog/post''
   = Inr ([\<lparr>tag_name = ''script'',
             attrs = [(''src'', ''example-com-blog-post_files/example-com-x.js'')]\<rparr>],
          [\<lparr>link = ''//example.com/x.js'', name = ''example-com-x.js''\<rparr>])"
  by code_simp










text \<open>C8: a link that has a network location is returned as it is, for every page URL that
  \<^verbatim>\<open>urlparse\<close> accepts; an absolute URL \<^verbatim>\<open>scheme://host...\<close> with a host is such a link.\<close>

theorem get_full_link_netloc_unchanged:
  assumes "urlparse (ip_address E) page_url [] = Inr page"
  shows "(urlparse (ip_address E) l [] = Inr rsc \<and> netloc rsc \<noteq> [] \<longrightarrow>
            get_full_link E l page_url = Inr l) \<and>
         (valid_scheme s \<and> netloc_ok (ip_address E) h \<and> h \<noteq> [] \<and> rest_ok r \<longrightarrow>
            get_full_link E (s @ ''://'' @ h @ r) page_url = Inr (s @ ''://'' @ h @ r))"
proof (intro conjI impI)
  assume "urlparse (ip_address E) l [] = Inr rsc \<and> netloc rsc \<noteq> []"
  with assms show "get_full_link E l page_url = Inr l"
    by (simp add: get_full_link_def Let_def)
next
  assume h: "valid_scheme s \<and> netloc_ok (ip_address E) h \<and> h \<noteq> [] \<and> rest_ok r"
  with urlparse_absolute [of s "ip_address E" h r "[]"]
  obtain a where a: "urlparse (ip_address E) (s @ ''://'' @ h @ r) [] = Inr a" "netloc a = h"
    by blast
  from h a(2) have "netloc a \<noteq> []" by simp
  with assms a(1) show "get_full_link E (s @ ''://'' @ h @ r) page_url = Inr (s @ ''://'' @ h @ r)"
    unfolding get_full_link_def by (simp add: Let_def)
qed

theorem get_full_link_netloc_unchanged_witness:
  "urlparse (ip_address (example_env Posix)) ''https://example.com/blog/post'' []
     = Inr \<lparr>scheme = ''https'', netloc = ''example.com'', path = ''/blog/post'',
            params = [], query = [], fragment = []\<rparr> \<and>
   urlparse (ip_address (example_env Posix)) ''//cdn.other.com/x.js?v=1'' []
     = Inr \<lparr>scheme = [], netloc = ''cdn.other.com'', path = ''/x.js'',
            params = [], query = ''v=1'', fragment = []\<rparr> \<and>
   get_full_link (example_env Posix) ''//cdn.other.com/x.js?v=1''
     ''https://example.com/blog/post'' = Inr ''//cdn.other.com/x.js?v=1'' \<and>
   valid_scheme ''http'' \<and> netloc_ok (ip_address (example_env Posix)) ''cdn.other.com'' \<and>
   rest_ok ''/x.js'' \<and>
   get_full_link (example_env Posix) ''http://cdn.other.com/x.js''
     ''https://example.com/blog/post'' = Inr ''http://cdn.other.com/x.js''"
proof -
  have a: "urlparse (ip_address (example_env Posix)) ''https://example.com/blog/post'' []
     = Inr \<lparr>scheme = ''https'', netloc = ''example.com'', path = ''/blog/post'',
            params = [], query = [], fragment = []\<rparr>" by code_simp
  have b: "urlparse (ip_address (example_env Posix)) ''//cdn.other.com/x.js?v=1'' []
     = Inr \<lparr>scheme = [], netloc = ''cdn.other.com'', path = ''/x.js'',
            params = [], query = ''v=1'', fragment = []\<rparr>" by code_simp
  have s: "valid_scheme ''http''" by code_simp
  have n: "netloc_ok (ip_address (example_env Posix)) ''cdn.other.com''" by code_simp
  have r: "rest_ok ''/x.js''" by code_simp
  note t = get_full_link_netloc_unchanged [OF a]
  from t [THEN conjunct1, rule_format, OF conjI [OF b]]
  have c: "get_full_link (example_env Posix) ''//cdn.other.com/x.js?v=1''
     ''https://example.com/blog/post'' = Inr ''//cdn.other.com/x.js?v=1''" by simp
  from t [THEN conjunct2, rule_format, OF conjI [OF s conjI [OF n conjI [OF _ r]]]]
  have d: "get_full_link (example_env Posix) ''http://cdn.other.com/x.js''
     ''https://example.com/blog/post'' = Inr ''http://cdn.other.com/x.js''" by simp
  from a b c d s n r show ?thesis by simp
qed

end
